theory Spec2Isabelle
  imports Main "HOL-Library.Word"
begin

section \<open>Bytes, C strings and buffers\<close>

text \<open>
  A C buffer is a list of bytes (\<open>char\<close>); a pointer into it is an offset. A C string
  is the bytes before the first NUL; reading the byte at offset \<open>length s\<close> gives the
  NUL terminator. Reads beyond that are outside the object in C; the model returns NUL
  there as well, and the places where the source can perform such a read are noted.
\<close>

definition NUL :: char where "NUL = CHR 0x00"
definition CR :: char where "CR = CHR 0x0D"
definition LF :: char where "LF = CHR 0x0A"
definition CRLF :: string where "CRLF = [CR, LF]"

definition at :: "string \<Rightarrow> nat \<Rightarrow> char" where
  "at s i = (if i < length s then s ! i else NUL)"

definition strlen :: "string \<Rightarrow> nat" where
  "strlen s = length (takeWhile (\<lambda>c. c \<noteq> NUL) s)"

text \<open>\<open>mem_slice s off n\<close>: the \<open>n\<close> bytes of \<open>s\<close> from offset \<open>off\<close>.\<close>

definition mem_slice :: "string \<Rightarrow> nat \<Rightarrow> nat \<Rightarrow> string" where
  "mem_slice s off n = map (at s) [off ..< off + n]"

text \<open>
  \<^verbatim>\<open>g_ascii_isspace\<close> and \<^verbatim>\<open>g_ascii_tolower\<close> of GLib: the white space of the C
  locale without the vertical tab, and the letters A to Z.
\<close>

definition g_ascii_isspace :: "char \<Rightarrow> bool" where
  "g_ascii_isspace ch \<longleftrightarrow> ch \<in> set [CHR '' '', CHR 0x09, CHR 0x0A, CHR 0x0C, CHR 0x0D]"

definition g_ascii_tolower :: "char \<Rightarrow> char" where
  "g_ascii_tolower ch =
     (let n = (of_char ch :: nat) in if 65 \<le> n \<and> n \<le> 90 then char_of (n + 32) else ch)"

text \<open>\<^verbatim>\<open>g_strstrip\<close>: remove the leading and the trailing white space.\<close>

definition g_strstrip :: "string \<Rightarrow> string" where
  "g_strstrip h = rev (dropWhile g_ascii_isspace (rev (dropWhile g_ascii_isspace h)))"

section \<open>Error kinds (dkim.h)\<close>

datatype dkim_sigerror =
    DKIM_SIGERROR_UNKNOWN
  | DKIM_SIGERROR_VERSION
  | DKIM_SIGERROR_EXPIRED
  | DKIM_SIGERROR_FUTURE
  | DKIM_SIGERROR_INVALID_A
  | DKIM_SIGERROR_INVALID_H
  | DKIM_SIGERROR_INVALID_L
  | DKIM_SIGERROR_EMPTY_D
  | DKIM_SIGERROR_EMPTY_S
  | DKIM_SIGERROR_EMPTY_B
  | DKIM_SIGERROR_EMPTY_BH
  | DKIM_SIGERROR_EMPTY_V
  | DKIM_SIGERROR_EMPTY_H
  | DKIM_SIGERROR_BADSIG
  | DKIM_SIGERROR_NOKEY
  | DKIM_SIGERROR_KEYFAIL
  | DKIM_SIGERROR_KEYREVOKED

section \<open>External collaborators\<close>

text \<open>
  The library calls of \<^verbatim>\<open>dkim.c\<close> whose code is outside the file are parameters of
  the model, collected in one record:
  \<^item> \<open>base64_decode\<close>: \<^verbatim>\<open>g_base64_decode_inplace (text, &len)\<close>, from the text and the
    value of \<open>len\<close> before the call to the bytes left in the buffer and the value of
    \<open>len\<close> after it;
  \<^item> \<open>have_openssl\<close>: whether the file is compiled with \<^verbatim>\<open>HAVE_OPENSSL\<close>;
  \<^item> \<open>pubkey_of\<close>: the chain \<^verbatim>\<open>BIO_new_mem_buf\<close>, \<^verbatim>\<open>d2i_PUBKEY_bio\<close>,
    \<^verbatim>\<open>EVP_PKEY_get1_RSA\<close> on the decoded key data; \<open>None\<close> when one of them fails;
  \<^item> \<open>rsa_verify\<close>: \<^verbatim>\<open>RSA_verify (nid, digest, dlen, b, blen, key_rsa) == 1\<close>;
  \<^item> \<open>sha1\<close>, \<open>sha256\<close>: the digest \<^verbatim>\<open>g_checksum_get_digest\<close> returns for the
    bytes fed to a checksum of that type;
  \<^item> \<open>strtoul\<close>: \<^verbatim>\<open>rspamd_strtoul\<close>, \<open>None\<close> when it returns FALSE;
  \<^item> \<open>now\<close>: \<^verbatim>\<open>time (NULL)\<close>, a \<^verbatim>\<open>time_t\<close>.
\<close>

datatype nid = NID_sha1 | NID_sha256

record env =
  base64_decode :: "string \<Rightarrow> nat \<Rightarrow> string \<times> nat"
  have_openssl :: bool
  pubkey_of :: "string \<Rightarrow> string option"
  rsa_verify :: "nid \<Rightarrow> string \<Rightarrow> string \<Rightarrow> string option \<Rightarrow> bool"
  sha1 :: "string \<Rightarrow> string"
  sha256 :: "string \<Rightarrow> string"
  strtoul :: "string \<Rightarrow> nat option"
  now :: int

text \<open>
  \<^verbatim>\<open>rspamd_strlcpy (dst, src, len + 1)\<close> copies at most \<open>len\<close> bytes and stops at a
  NUL.
\<close>

definition rspamd_strlcpy :: "string \<Rightarrow> nat \<Rightarrow> nat \<Rightarrow> string" where
  "rspamd_strlcpy s off len = takeWhile (\<lambda>c. c \<noteq> NUL) (mem_slice s off len)"

section \<open>Verifier context\<close>

datatype dkim_sign = DKIM_SIGN_UNKNOWN | DKIM_SIGN_RSASHA1 | DKIM_SIGN_RSASHA256

datatype dkim_canon = DKIM_CANON_SIMPLE | DKIM_CANON_RELAXED

text \<open>
  Modelled from the spec: \<^verbatim>\<open>DKIM_CANON_DEFAULT\<close>, \<^verbatim>\<open>DKIM_DNSKEYNAME\<close> and
  \<^verbatim>\<open>DKIM_SIGNHEADER\<close> are macros of \<^verbatim>\<open>dkim.h\<close>: both canonicalizations default to
  simple, the key name carries the label \<^verbatim>\<open>_domainkey\<close>, and the signature header is
  \<^verbatim>\<open>DKIM-Signature\<close>.
\<close>

definition DKIM_CANON_DEFAULT :: dkim_canon where
  "DKIM_CANON_DEFAULT = DKIM_CANON_SIMPLE"

definition DKIM_DNSKEYNAME :: string where
  "DKIM_DNSKEYNAME = ''_domainkey''"

definition DKIM_SIGNHEADER :: string where
  "DKIM_SIGNHEADER = ''DKIM-Signature''"

text \<open>
  Modelled from the spec: \<^verbatim>\<open>rspamd_dkim_context_t\<close> is declared in \<^verbatim>\<open>dkim.h\<close>; the fields
  are those \<^verbatim>\<open>dkim.c\<close> reads and writes. A pointer field is an option (\<open>None\<close> is NULL);
  \<open>hlist\<close> is a \<^verbatim>\<open>GList\<close>, NULL when empty. The two checksums are represented by the
  bytes fed to them so far. \<open>timestamp\<close> and \<open>expiration\<close> are \<^verbatim>\<open>time_t\<close>, a signed integer
  of 64 bits, which \<^verbatim>\<open>rspamd_create_dkim_context\<close> compares with the \<^verbatim>\<open>time_t\<close> it gets
  from \<^verbatim>\<open>time (NULL)\<close>.
\<close>

record rspamd_dkim_context =
  sig_alg :: dkim_sign
  header_canon_type :: dkim_canon
  body_canon_type :: dkim_canon
  len :: nat
  domain :: "string option"
  selector :: "string option"
  timestamp :: int
  expiration :: int
  b :: "string option"
  bh :: "string option"
  bhlen :: nat
  blen :: nat
  hlist :: "string list"
  ver :: nat
  dns_key :: string
  body_hash :: string
  headers_hash :: string

section \<open>Parsers of the signature parameters\<close>

datatype dkim_param =
    DKIM_PARAM_UNKNOWN
  | DKIM_PARAM_SIGNATURE
  | DKIM_PARAM_SIGNALG
  | DKIM_PARAM_DOMAIN
  | DKIM_PARAM_CANONALG
  | DKIM_PARAM_QUERYMETHOD
  | DKIM_PARAM_SELECTOR
  | DKIM_PARAM_HDRLIST
  | DKIM_PARAM_VERSION
  | DKIM_PARAM_IDENTITY
  | DKIM_PARAM_TIMESTAMP
  | DKIM_PARAM_EXPIRATION
  | DKIM_PARAM_COPIEDHDRS
  | DKIM_PARAM_BODYHASH
  | DKIM_PARAM_BODYLENGTH

text \<open>
  Each parser takes the context, the signature string with the offset \<open>param\<close> of the
  value in it, and the length \<open>n\<close> of the value.
\<close>

definition rspamd_dkim_parse_signature ::
  "env \<Rightarrow> rspamd_dkim_context \<Rightarrow> string \<Rightarrow> nat \<Rightarrow> nat \<Rightarrow> dkim_sigerror + rspamd_dkim_context" where
  "rspamd_dkim_parse_signature E ctx sig param n =
     (let (data, n') = base64_decode E (rspamd_strlcpy sig param n) n
      in Inr (ctx\<lparr>b := Some data, blen := n'\<rparr>))"

definition rspamd_dkim_parse_signalg ::
  "rspamd_dkim_context \<Rightarrow> string \<Rightarrow> nat \<Rightarrow> nat \<Rightarrow> dkim_sigerror + rspamd_dkim_context" where
  "rspamd_dkim_parse_signalg ctx sig param n =
     (if n = 8 \<and> mem_slice sig param n = ''rsa-sha1''
      then Inr (ctx\<lparr>sig_alg := DKIM_SIGN_RSASHA1\<rparr>)
      else if n = 10 \<and> mem_slice sig param n = ''rsa-sha256''
      then Inr (ctx\<lparr>sig_alg := DKIM_SIGN_RSASHA256\<rparr>)
      else Inl DKIM_SIGERROR_INVALID_A)"

definition rspamd_dkim_parse_domain ::
  "rspamd_dkim_context \<Rightarrow> string \<Rightarrow> nat \<Rightarrow> nat \<Rightarrow> dkim_sigerror + rspamd_dkim_context" where
  "rspamd_dkim_parse_domain ctx sig param n =
     Inr (ctx\<lparr>domain := Some (rspamd_strlcpy sig param n)\<rparr>)"

text \<open>The search for the slash: the count \<open>sl\<close> of bytes before it, if there is one.\<close>

function find_slash :: "string \<Rightarrow> nat \<Rightarrow> nat \<Rightarrow> nat \<Rightarrow> nat option" where
  "find_slash sig p e sl =
     (if p < e then
        (if at sig p = CHR ''/'' then Some sl else find_slash sig (p + 1) e (sl + 1))
      else None)"
  by pat_completeness auto
termination
  by (relation "measure (\<lambda>(sig, p, e, sl). e - p)") auto

declare find_slash.simps [simp del]

definition rspamd_dkim_parse_canonalg ::
  "rspamd_dkim_context \<Rightarrow> string \<Rightarrow> nat \<Rightarrow> nat \<Rightarrow> dkim_sigerror + rspamd_dkim_context" where
  "rspamd_dkim_parse_canonalg ctx sig param n =
     (case find_slash sig param (param + n) 0 of
        None \<Rightarrow>
          (if n = 6 \<and> mem_slice sig param n = ''simple''
           then Inr (ctx\<lparr>header_canon_type := DKIM_CANON_SIMPLE\<rparr>)
           else if n = 7 \<and> mem_slice sig param n = ''relaxed''
           then Inr (ctx\<lparr>header_canon_type := DKIM_CANON_RELAXED\<rparr>)
           else Inl DKIM_SIGERROR_INVALID_A)
      | Some sl \<Rightarrow>
          (if (sl = 6 \<and> mem_slice sig param sl = ''simple'') \<or> (sl = 7 \<and> mem_slice sig param sl = ''relaxed'')
           then
             (let ctx1 = ctx\<lparr>header_canon_type :=
                            (if sl = 6 then DKIM_CANON_SIMPLE else DKIM_CANON_RELAXED)\<rparr>;
                  n1 = n - (sl + 1);
                  slash = param + sl + 1
              in if n1 = 6 \<and> mem_slice sig slash n1 = ''simple''
                 then Inr (ctx1\<lparr>body_canon_type := DKIM_CANON_SIMPLE\<rparr>)
                 else if n1 = 7 \<and> mem_slice sig slash n1 = ''relaxed''
                 then Inr (ctx1\<lparr>body_canon_type := DKIM_CANON_RELAXED\<rparr>)
                 else Inl DKIM_SIGERROR_INVALID_A)
           else Inl DKIM_SIGERROR_INVALID_A))"

definition rspamd_dkim_parse_ignore ::
  "rspamd_dkim_context \<Rightarrow> string \<Rightarrow> nat \<Rightarrow> nat \<Rightarrow> dkim_sigerror + rspamd_dkim_context" where
  "rspamd_dkim_parse_ignore ctx sig param n = Inr ctx"

definition rspamd_dkim_parse_selector ::
  "rspamd_dkim_context \<Rightarrow> string \<Rightarrow> nat \<Rightarrow> nat \<Rightarrow> dkim_sigerror + rspamd_dkim_context" where
  "rspamd_dkim_parse_selector ctx sig param n =
     Inr (ctx\<lparr>selector := Some (rspamd_strlcpy sig param n)\<rparr>)"

text \<open>
  The loop of \<^verbatim>\<open>rspamd_dkim_parse_hdrlist\<close>, \<^verbatim>\<open>while (p <= end)\<close>: it returns the
  list with the new names prepended and the flag \<open>from_found\<close>. The byte at \<open>end\<close> is
  read only in a disjunction with \<^verbatim>\<open>p == end\<close>.
\<close>

function hdrlist_loop ::
  "string \<Rightarrow> nat \<Rightarrow> nat \<Rightarrow> nat \<Rightarrow> bool \<Rightarrow> string list \<Rightarrow> string list \<times> bool" where
  "hdrlist_loop sig e p c from_found hl =
     (if p \<le> e then
        (if (at sig p = CHR '':'' \<or> p = e) \<and> p > c then
           (let h = g_strstrip (rspamd_strlcpy sig c (p - c));
                ff = (from_found \<or> map g_ascii_tolower h = ''from'')
            in hdrlist_loop sig e (p + 1) (p + 1) ff (h # hl))
         else hdrlist_loop sig e (p + 1) c from_found hl)
      else (hl, from_found))"
  by pat_completeness auto
termination
  by (relation "measure (\<lambda>(sig, e, p, c, ff, hl). Suc e - p)") auto

declare hdrlist_loop.simps [simp del]

definition rspamd_dkim_parse_hdrlist ::
  "rspamd_dkim_context \<Rightarrow> string \<Rightarrow> nat \<Rightarrow> nat \<Rightarrow> dkim_sigerror + rspamd_dkim_context" where
  "rspamd_dkim_parse_hdrlist ctx sig param n =
     (case hdrlist_loop sig (param + n) param param False (hlist ctx) of
        (hl, from_found) \<Rightarrow>
          (if hl = [] then Inl DKIM_SIGERROR_INVALID_H
           else if \<not> from_found then Inl DKIM_SIGERROR_INVALID_H
           else Inr (ctx\<lparr>hlist := rev hl\<rparr>)))"

definition rspamd_dkim_parse_version ::
  "rspamd_dkim_context \<Rightarrow> string \<Rightarrow> nat \<Rightarrow> nat \<Rightarrow> dkim_sigerror + rspamd_dkim_context" where
  "rspamd_dkim_parse_version ctx sig param n =
     (if n \<noteq> 1 \<or> at sig param \<noteq> CHR ''1'' then Inl DKIM_SIGERROR_VERSION
      else Inr (ctx\<lparr>ver := 1\<rparr>))"

text \<open>
  The assignments \<^verbatim>\<open>ctx->timestamp = val\<close> and \<^verbatim>\<open>ctx->expiration = val\<close> store a
  \<^verbatim>\<open>gulong\<close> in a \<^verbatim>\<open>time_t\<close>: a value from \<open>2 ^ 63\<close> on becomes negative.
\<close>

definition time_t_of :: "nat \<Rightarrow> int" where
  "time_t_of val = sint (word_of_nat val :: 64 word)"

definition rspamd_dkim_parse_timestamp ::
  "env \<Rightarrow> rspamd_dkim_context \<Rightarrow> string \<Rightarrow> nat \<Rightarrow> nat \<Rightarrow> dkim_sigerror + rspamd_dkim_context" where
  "rspamd_dkim_parse_timestamp E ctx sig param n =
     (case strtoul E (mem_slice sig param n) of
        None \<Rightarrow> Inl DKIM_SIGERROR_UNKNOWN
      | Some val \<Rightarrow> Inr (ctx\<lparr>timestamp := time_t_of val\<rparr>))"

definition rspamd_dkim_parse_expiration ::
  "env \<Rightarrow> rspamd_dkim_context \<Rightarrow> string \<Rightarrow> nat \<Rightarrow> nat \<Rightarrow> dkim_sigerror + rspamd_dkim_context" where
  "rspamd_dkim_parse_expiration E ctx sig param n =
     (case strtoul E (mem_slice sig param n) of
        None \<Rightarrow> Inl DKIM_SIGERROR_UNKNOWN
      | Some val \<Rightarrow> Inr (ctx\<lparr>expiration := time_t_of val\<rparr>))"

definition rspamd_dkim_parse_bodyhash ::
  "env \<Rightarrow> rspamd_dkim_context \<Rightarrow> string \<Rightarrow> nat \<Rightarrow> nat \<Rightarrow> dkim_sigerror + rspamd_dkim_context" where
  "rspamd_dkim_parse_bodyhash E ctx sig param n =
     (let (data, n') = base64_decode E (rspamd_strlcpy sig param n) n
      in Inr (ctx\<lparr>bh := Some data, bhlen := n'\<rparr>))"

definition rspamd_dkim_parse_bodylength ::
  "env \<Rightarrow> rspamd_dkim_context \<Rightarrow> string \<Rightarrow> nat \<Rightarrow> nat \<Rightarrow> dkim_sigerror + rspamd_dkim_context" where
  "rspamd_dkim_parse_bodylength E ctx sig param n =
     (case strtoul E (mem_slice sig param n) of
        None \<Rightarrow> Inl DKIM_SIGERROR_INVALID_L
      | Some val \<Rightarrow> Inr (ctx\<lparr>len := val\<rparr>))"

text \<open>
  The table \<^verbatim>\<open>parser_funcs\<close>. It has no entry for \<^verbatim>\<open>DKIM_PARAM_UNKNOWN\<close>; the caller
  tests for that value before it indexes the table.
\<close>

fun parser_funcs ::
  "dkim_param \<Rightarrow> env \<Rightarrow> rspamd_dkim_context \<Rightarrow> string \<Rightarrow> nat \<Rightarrow> nat \<Rightarrow>
   dkim_sigerror + rspamd_dkim_context" where
  "parser_funcs DKIM_PARAM_SIGNATURE E = rspamd_dkim_parse_signature E"
| "parser_funcs DKIM_PARAM_SIGNALG E = rspamd_dkim_parse_signalg"
| "parser_funcs DKIM_PARAM_DOMAIN E = rspamd_dkim_parse_domain"
| "parser_funcs DKIM_PARAM_CANONALG E = rspamd_dkim_parse_canonalg"
| "parser_funcs DKIM_PARAM_QUERYMETHOD E = rspamd_dkim_parse_ignore"
| "parser_funcs DKIM_PARAM_SELECTOR E = rspamd_dkim_parse_selector"
| "parser_funcs DKIM_PARAM_HDRLIST E = rspamd_dkim_parse_hdrlist"
| "parser_funcs DKIM_PARAM_VERSION E = rspamd_dkim_parse_version"
| "parser_funcs DKIM_PARAM_IDENTITY E = rspamd_dkim_parse_ignore"
| "parser_funcs DKIM_PARAM_TIMESTAMP E = rspamd_dkim_parse_timestamp E"
| "parser_funcs DKIM_PARAM_EXPIRATION E = rspamd_dkim_parse_expiration E"
| "parser_funcs DKIM_PARAM_COPIEDHDRS E = rspamd_dkim_parse_ignore"
| "parser_funcs DKIM_PARAM_BODYHASH E = rspamd_dkim_parse_bodyhash E"
| "parser_funcs DKIM_PARAM_BODYLENGTH E = rspamd_dkim_parse_bodylength E"
| "parser_funcs DKIM_PARAM_UNKNOWN E = (\<lambda>ctx sig param n. Inl DKIM_SIGERROR_UNKNOWN)"

section \<open>Context creation: the tag state machine\<close>

datatype dkim_state =
    DKIM_STATE_TAG
  | DKIM_STATE_AFTER_TAG
  | DKIM_STATE_VALUE
  | DKIM_STATE_SKIP_SPACES
  | DKIM_STATE_ERROR

text \<open>
  The variable \<^verbatim>\<open>next_state\<close> is only ever assigned the three states below, so it has
  a type of its own.
\<close>

datatype dkim_next_state = NEXT_TAG | NEXT_AFTER_TAG | NEXT_VALUE

fun state_of_next :: "dkim_next_state \<Rightarrow> dkim_state" where
  "state_of_next NEXT_TAG = DKIM_STATE_TAG"
| "state_of_next NEXT_AFTER_TAG = DKIM_STATE_AFTER_TAG"
| "state_of_next NEXT_VALUE = DKIM_STATE_VALUE"

text \<open>
  The local variables of \<^verbatim>\<open>rspamd_create_dkim_context\<close> during the loop; \<open>ps_err\<close> is
  the \<^verbatim>\<open>GError\<close> cell. \<open>ps_calls\<close> is not a variable of the source: it records, in
  order, each call \<^verbatim>\<open>parser_funcs[param] (new, c, len, err)\<close> the loop makes, as the
  parameter and the length passed, and no branch reads it.
\<close>

record parse_st =
  ps_state :: dkim_state
  ps_next_state :: dkim_next_state
  ps_p :: nat
  ps_c :: nat
  ps_tag :: nat
  ps_taglen :: nat
  ps_param :: dkim_param
  ps_new :: rspamd_dkim_context
  ps_err :: "dkim_sigerror option"
  ps_calls :: "(dkim_param \<times> nat) list"

text \<open>\<^verbatim>\<open>while (*p && g_ascii_isspace (*p)) p ++\<close>\<close>

function skip_spaces :: "string \<Rightarrow> nat \<Rightarrow> nat" where
  "skip_spaces sig p =
     (if at sig p \<noteq> NUL \<and> g_ascii_isspace (at sig p) then skip_spaces sig (p + 1) else p)"
  by pat_completeness auto
termination
  by (relation "measure (\<lambda>(sig, p). length sig - p)") (auto simp: at_def split: if_splits)

declare skip_spaces.simps [simp del]

text \<open>The \<^verbatim>\<open>switch (*tag)\<close> over the one-letter tags; \<open>None\<close> is its default branch.\<close>

definition simple_tag_param :: "char \<Rightarrow> dkim_param option" where
  "simple_tag_param ch =
     (if ch = CHR ''v'' then Some DKIM_PARAM_VERSION
      else if ch = CHR ''a'' then Some DKIM_PARAM_SIGNALG
      else if ch = CHR ''b'' then Some DKIM_PARAM_SIGNATURE
      else if ch = CHR ''c'' then Some DKIM_PARAM_CANONALG
      else if ch = CHR ''d'' then Some DKIM_PARAM_DOMAIN
      else if ch = CHR ''h'' then Some DKIM_PARAM_HDRLIST
      else if ch = CHR ''i'' then Some DKIM_PARAM_IDENTITY
      else if ch = CHR ''l'' then Some DKIM_PARAM_BODYLENGTH
      else if ch = CHR ''q'' then Some DKIM_PARAM_QUERYMETHOD
      else if ch = CHR ''s'' then Some DKIM_PARAM_SELECTOR
      else if ch = CHR ''t'' then Some DKIM_PARAM_TIMESTAMP
      else if ch = CHR ''x'' then Some DKIM_PARAM_EXPIRATION
      else if ch = CHR ''z'' then Some DKIM_PARAM_COPIEDHDRS
      else None)"

text \<open>The state \<^verbatim>\<open>DKIM_STATE_TAG\<close>.\<close>

definition step_tag :: "string \<Rightarrow> parse_st \<Rightarrow> parse_st" where
  "step_tag sig st =
     (if g_ascii_isspace (at sig (ps_p st)) then
        (let p' = skip_spaces sig (ps_p st);
             st1 = st\<lparr>ps_taglen := ps_p st - ps_c st, ps_p := p'\<rparr>
         in if at sig p' \<noteq> CHR ''=''
            then st1\<lparr>ps_err := Some DKIM_SIGERROR_UNKNOWN, ps_state := DKIM_STATE_ERROR\<rparr>
            else st1\<lparr>ps_state := DKIM_STATE_SKIP_SPACES, ps_next_state := NEXT_AFTER_TAG,
                     ps_param := DKIM_PARAM_UNKNOWN, ps_p := p' + 1, ps_tag := ps_c st\<rparr>)
      else if at sig (ps_p st) = CHR ''=''
      then st\<lparr>ps_state := DKIM_STATE_SKIP_SPACES, ps_next_state := NEXT_AFTER_TAG,
              ps_param := DKIM_PARAM_UNKNOWN, ps_p := ps_p st + 1, ps_tag := ps_c st\<rparr>
      else st\<lparr>ps_taglen := ps_taglen st + 1, ps_p := ps_p st + 1\<rparr>)"

text \<open>
  The state \<^verbatim>\<open>DKIM_STATE_AFTER_TAG\<close>: the tag is at \<open>ps_tag\<close> and has \<open>ps_taglen\<close>
  bytes.
\<close>

definition step_after_tag :: "string \<Rightarrow> parse_st \<Rightarrow> parse_st" where
  "step_after_tag sig st =
     (let fail = st\<lparr>ps_err := Some DKIM_SIGERROR_UNKNOWN, ps_state := DKIM_STATE_ERROR\<rparr>;
          ok = (\<lambda>prm. st\<lparr>ps_param := prm, ps_state := DKIM_STATE_SKIP_SPACES,
                         ps_next_state := NEXT_VALUE\<rparr>)
      in if ps_taglen st = 0 then fail
         else if ps_taglen st = 1 then
           (case simple_tag_param (at sig (ps_tag st)) of
              Some prm \<Rightarrow> ok prm
            | None \<Rightarrow> fail)
         else if ps_taglen st = 2 then
           (if at sig (ps_tag st) = CHR ''b'' \<and> at sig (ps_tag st + 1) = CHR ''h''
            then ok DKIM_PARAM_BODYHASH
            else fail)
         else fail)"

text \<open>
  The call \<^verbatim>\<open>parser_funcs[param] (new, c, n, err)\<close> of the state
  \<^verbatim>\<open>DKIM_STATE_VALUE\<close>, guarded by \<^verbatim>\<open>param == DKIM_PARAM_UNKNOWN\<close>. A failing parser
  sets the error; \<open>ok\<close> is what the branch does after a successful call.
\<close>

definition call_parser ::
  "env \<Rightarrow> string \<Rightarrow> parse_st \<Rightarrow> nat \<Rightarrow> (parse_st \<Rightarrow> parse_st) \<Rightarrow> parse_st" where
  "call_parser E sig st n ok =
     (if ps_param st = DKIM_PARAM_UNKNOWN then st\<lparr>ps_state := DKIM_STATE_ERROR\<rparr>
      else
        (let st1 = st\<lparr>ps_calls := ps_calls st @ [(ps_param st, n)]\<rparr>
         in case parser_funcs (ps_param st) E (ps_new st) sig (ps_c st) n of
              Inl e \<Rightarrow> st1\<lparr>ps_err := Some e, ps_state := DKIM_STATE_ERROR\<rparr>
            | Inr ctx \<Rightarrow> ok (st1\<lparr>ps_new := ctx\<rparr>)))"

text \<open>
  The state \<^verbatim>\<open>DKIM_STATE_VALUE\<close>. At the end of the input the length passed is
  \<^verbatim>\<open>p - c + 1\<close>, which counts the terminating NUL.
\<close>

definition step_value :: "env \<Rightarrow> string \<Rightarrow> nat \<Rightarrow> parse_st \<Rightarrow> parse_st" where
  "step_value E sig e st =
     (if at sig (ps_p st) = CHR '';'' then
        call_parser E sig st (ps_p st - ps_c st)
          (\<lambda>s. s\<lparr>ps_state := DKIM_STATE_SKIP_SPACES, ps_next_state := NEXT_TAG,
                 ps_p := ps_p st + 1, ps_taglen := 0\<rparr>)
      else if ps_p st = e then
        call_parser E sig st (ps_p st - ps_c st + 1) (\<lambda>s. s\<lparr>ps_p := ps_p st + 1\<rparr>)
      else st\<lparr>ps_p := ps_p st + 1\<rparr>)"

text \<open>The state \<^verbatim>\<open>DKIM_STATE_SKIP_SPACES\<close>.\<close>

definition step_skip_spaces :: "string \<Rightarrow> parse_st \<Rightarrow> parse_st" where
  "step_skip_spaces sig st =
     (if g_ascii_isspace (at sig (ps_p st)) then st\<lparr>ps_p := ps_p st + 1\<rparr>
      else st\<lparr>ps_c := ps_p st, ps_state := state_of_next (ps_next_state st)\<rparr>)"

text \<open>
  One iteration of the \<^verbatim>\<open>switch (state)\<close>. The state \<^verbatim>\<open>DKIM_STATE_ERROR\<close> returns
  NULL with the error that was set; the message \<^verbatim>\<open>unknown error\<close> of its other branch
  is UNKNOWN here.
\<close>

definition dkim_step :: "env \<Rightarrow> string \<Rightarrow> nat \<Rightarrow> parse_st \<Rightarrow> dkim_sigerror + parse_st" where
  "dkim_step E sig e st =
     (case ps_state st of
        DKIM_STATE_TAG \<Rightarrow> Inr (step_tag sig st)
      | DKIM_STATE_AFTER_TAG \<Rightarrow> Inr (step_after_tag sig st)
      | DKIM_STATE_VALUE \<Rightarrow> Inr (step_value E sig e st)
      | DKIM_STATE_SKIP_SPACES \<Rightarrow> Inr (step_skip_spaces sig st)
      | DKIM_STATE_ERROR \<Rightarrow>
          (case ps_err st of Some err \<Rightarrow> Inl err | None \<Rightarrow> Inl DKIM_SIGERROR_UNKNOWN))"

text \<open>The progress measure of the loop: the distance to the end, then the state.\<close>

definition state_rank :: "parse_st \<Rightarrow> nat" where
  "state_rank st =
     (case ps_state st of
        DKIM_STATE_ERROR \<Rightarrow> 0
      | DKIM_STATE_TAG \<Rightarrow> 1
      | DKIM_STATE_VALUE \<Rightarrow> 1
      | DKIM_STATE_AFTER_TAG \<Rightarrow> 3
      | DKIM_STATE_SKIP_SPACES \<Rightarrow>
          (case ps_next_state st of NEXT_AFTER_TAG \<Rightarrow> 4 | _ \<Rightarrow> 2))"

definition loop_measure :: "nat \<Rightarrow> parse_st \<Rightarrow> nat" where
  "loop_measure e st = 5 * (Suc e - ps_p st) + state_rank st"

lemma skip_spaces_ge: "p \<le> skip_spaces sig p"
proof (induction sig p rule: skip_spaces.induct)
  case (1 sig p)
  then show ?case
    by (subst skip_spaces.simps) auto
qed

lemma call_parser_measure:
  assumes "ps_p st \<le> e"
    and "\<And>s. ps_state s = DKIM_STATE_VALUE \<Longrightarrow> ps_p s = ps_p st
           \<Longrightarrow> loop_measure e (ok s) < 5 * (Suc e - ps_p st) + 1"
    and "ps_state st = DKIM_STATE_VALUE"
  shows "loop_measure e (call_parser E sig st n ok) < loop_measure e st"
proof -
  have "loop_measure e (ok (st\<lparr>ps_calls := cs, ps_new := ctx\<rparr>)) < 5 * (Suc e - ps_p st) + 1"
    for cs ctx
    using assms(2) [of "st\<lparr>ps_calls := cs, ps_new := ctx\<rparr>"] assms(3) by simp
  moreover have "loop_measure e st = 5 * (Suc e - ps_p st) + 1"
    using assms(3) by (simp add: loop_measure_def state_rank_def)
  moreover have "loop_measure e (st\<lparr>ps_state := DKIM_STATE_ERROR\<rparr>) < 5 * (Suc e - ps_p st) + 1"
    by (simp add: loop_measure_def state_rank_def)
  moreover have "loop_measure e (st\<lparr>ps_calls := cs, ps_err := er, ps_state := DKIM_STATE_ERROR\<rparr>)
                   < 5 * (Suc e - ps_p st) + 1" for cs er
    by (simp add: loop_measure_def state_rank_def)
  ultimately show ?thesis
    by (simp add: call_parser_def Let_def split: sum.splits)
qed

lemma dkim_step_measure:
  assumes "ps_p st \<le> e" and "dkim_step E sig e st = Inr st'"
  shows "loop_measure e st' < loop_measure e st"
proof (cases "ps_state st")
  case DKIM_STATE_TAG
  with assms show ?thesis
    using skip_spaces_ge [of "ps_p st" sig]
    by (auto simp: dkim_step_def step_tag_def Let_def loop_measure_def state_rank_def
             split: if_splits)
next
  case DKIM_STATE_AFTER_TAG
  with assms show ?thesis
    by (auto simp: dkim_step_def step_after_tag_def Let_def loop_measure_def state_rank_def
             split: if_splits option.splits)
next
  case DKIM_STATE_VALUE
  have "loop_measure e (call_parser E sig st n
          (\<lambda>s. s\<lparr>ps_state := DKIM_STATE_SKIP_SPACES, ps_next_state := NEXT_TAG,
                 ps_p := ps_p st + 1, ps_taglen := 0\<rparr>)) < loop_measure e st" for n
    using assms(1) DKIM_STATE_VALUE
    by (intro call_parser_measure) (auto simp: loop_measure_def state_rank_def)
  moreover have "loop_measure e (call_parser E sig st n (\<lambda>s. s\<lparr>ps_p := ps_p st + 1\<rparr>))
                   < loop_measure e st" for n
    using assms(1) DKIM_STATE_VALUE
    by (intro call_parser_measure) (auto simp: loop_measure_def state_rank_def)
  moreover have "loop_measure e (st\<lparr>ps_p := ps_p st + 1\<rparr>) < loop_measure e st"
    using assms(1) DKIM_STATE_VALUE by (auto simp: loop_measure_def state_rank_def)
  ultimately show ?thesis
    using assms(2) DKIM_STATE_VALUE
    by (auto simp: dkim_step_def step_value_def split: if_splits)
next
  case DKIM_STATE_SKIP_SPACES
  with assms show ?thesis
    by (cases "ps_next_state st")
       (auto simp: dkim_step_def step_skip_spaces_def loop_measure_def state_rank_def
             split: if_splits)
next
  case DKIM_STATE_ERROR
  with assms show ?thesis
    by (auto simp: dkim_step_def split: option.splits)
qed

text \<open>
  The loop \<^verbatim>\<open>while (p <= end)\<close>: \<open>Inl\<close> is the \<^verbatim>\<open>return NULL\<close> of the error state,
  \<open>Inr\<close> the variables when the loop is left.
\<close>

function dkim_parse_loop :: "env \<Rightarrow> string \<Rightarrow> nat \<Rightarrow> parse_st \<Rightarrow> dkim_sigerror + parse_st" where
  "dkim_parse_loop E sig e st =
     (if ps_p st \<le> e then
        (case dkim_step E sig e st of
           Inl err \<Rightarrow> Inl err
         | Inr st' \<Rightarrow> dkim_parse_loop E sig e st')
      else Inr st)"
  by pat_completeness auto
termination
  by (relation "measure (\<lambda>(E, sig, e, st). loop_measure e st)")
     (auto simp: dkim_step_measure)

declare dkim_parse_loop.simps [simp del]

text \<open>
  The context \<^verbatim>\<open>memory_pool_alloc0\<close> returns, with the three fields the function sets
  before the loop.
\<close>

definition new_context :: rspamd_dkim_context where
  "new_context =
     \<lparr>sig_alg = DKIM_SIGN_UNKNOWN, header_canon_type = DKIM_CANON_DEFAULT,
      body_canon_type = DKIM_CANON_DEFAULT, len = 0, domain = None, selector = None,
      timestamp = 0, expiration = 0, b = None, bh = None, bhlen = 0, blen = 0, hlist = [],
      ver = 0, dns_key = [], body_hash = [], headers_hash = []\<rparr>"

definition initial_parse_st :: parse_st where
  "initial_parse_st =
     \<lparr>ps_state = DKIM_STATE_SKIP_SPACES, ps_next_state = NEXT_TAG, ps_p = 0, ps_c = 0,
      ps_tag = 0, ps_taglen = 0, ps_param = DKIM_PARAM_UNKNOWN, ps_new = new_context,
      ps_err = None, ps_calls = []\<rparr>"

text \<open>
  \<^verbatim>\<open>g_checksum_type_get_length\<close>: 20 bytes for SHA-1 and 32 for SHA-256.
\<close>

definition checksum_length :: "dkim_sign \<Rightarrow> nat" where
  "checksum_length alg = (if alg = DKIM_SIGN_RSASHA1 then 20 else 32)"

text \<open>
  The part of \<^verbatim>\<open>rspamd_create_dkim_context\<close> after the loop: the validity checks in
  the order of the source, the DNS key name and the two fresh checksums.
\<close>

definition check_validity :: "env \<Rightarrow> rspamd_dkim_context \<Rightarrow> dkim_sigerror + rspamd_dkim_context" where
  "check_validity E new =
     (if b new = None then Inl DKIM_SIGERROR_EMPTY_B
      else if bh new = None then Inl DKIM_SIGERROR_EMPTY_BH
      else if domain new = None then Inl DKIM_SIGERROR_EMPTY_D
      else if selector new = None then Inl DKIM_SIGERROR_EMPTY_S
      else if ver new = 0 then Inl DKIM_SIGERROR_EMPTY_V
      else if hlist new = [] then Inl DKIM_SIGERROR_EMPTY_H
      else if sig_alg new = DKIM_SIGN_UNKNOWN then Inl DKIM_SIGERROR_EMPTY_S
      else if bhlen new \<noteq> checksum_length (sig_alg new) then Inl DKIM_SIGERROR_BADSIG
      else if timestamp new \<noteq> 0 \<and> timestamp new > now E then Inl DKIM_SIGERROR_FUTURE
      else if expiration new \<noteq> 0 \<and> expiration new < now E then Inl DKIM_SIGERROR_EXPIRED
      else
        (case (selector new, domain new) of
           (Some sel, Some dmn) \<Rightarrow>
             Inr (new\<lparr>dns_key := sel @ ''.'' @ DKIM_DNSKEYNAME @ ''.'' @ dmn,
                      body_hash := [], headers_hash := []\<rparr>)
         | _ \<Rightarrow> Inl DKIM_SIGERROR_BADSIG))"

text \<open>\<^verbatim>\<open>rspamd_create_dkim_context\<close>.\<close>

definition rspamd_create_dkim_context ::
  "env \<Rightarrow> string \<Rightarrow> dkim_sigerror + rspamd_dkim_context" where
  "rspamd_create_dkim_context E sig =
     (case dkim_parse_loop E sig (strlen sig) initial_parse_st of
        Inl err \<Rightarrow> Inl err
      | Inr st \<Rightarrow> check_validity E (ps_new st))"

section \<open>Public key records\<close>

record rspamd_dkim_key =
  keydata :: string
  keylen :: nat
  decoded_len :: nat
  key_rsa :: "string option"

text \<open>
  \<^verbatim>\<open>rspamd_dkim_make_key\<close>: copy \<open>keylen\<close> bytes, decode them in place (with
  \<open>decoded_len\<close> set to \<open>keylen + 1\<close> before the call), and (with OpenSSL) extract the
  RSA key; each of the three OpenSSL failures is KEYFAIL.
\<close>

definition rspamd_dkim_make_key ::
  "env \<Rightarrow> string \<Rightarrow> nat \<Rightarrow> nat \<Rightarrow> dkim_sigerror + rspamd_dkim_key" where
  "rspamd_dkim_make_key E mem off klen =
     (let (data, dlen) = base64_decode E (rspamd_strlcpy mem off klen) (klen + 1);
          key = \<lparr>keydata = data, keylen = klen + 1, decoded_len = dlen, key_rsa = None\<rparr>
      in if have_openssl E
         then (case pubkey_of E data of
                 None \<Rightarrow> Inl DKIM_SIGERROR_KEYFAIL
               | Some rsa \<Rightarrow> Inr (key\<lparr>key_rsa := Some rsa\<rparr>))
         else Inr key)"

text \<open>
  The scanning loop of \<^verbatim>\<open>rspamd_dkim_parse_key\<close>, \<^verbatim>\<open>while (p <= end)\<close> over the
  states 0 (looking for \<^verbatim>\<open>p=\<close>) and 1 (looking for the end of the value). It ends
  either at the \<^verbatim>\<open>return rspamd_dkim_make_key (c, len, err)\<close> of state 1
  (\<open>Inr (c, n)\<close> for the call with \<open>len = n\<close>) or by leaving the loop (\<open>Inl (p, c)\<close>).
\<close>

function parse_key_loop ::
  "string \<Rightarrow> nat \<Rightarrow> nat \<Rightarrow> nat \<Rightarrow> nat \<Rightarrow> (nat \<times> nat) + (nat \<times> nat)" where
  "parse_key_loop txt e st p c =
     (if p \<le> e then
        (if st = 0 then
           (if p \<noteq> e \<and> at txt p = CHR ''p'' \<and> at txt (p + 1) = CHR ''=''
            then parse_key_loop txt e 1 (p + 2) (p + 2)
            else parse_key_loop txt e 0 (p + 1) c)
         else
           (if (at txt p = CHR '';'' \<or> p = e) \<and> p > c
            then Inr (c, p - c)
            else parse_key_loop txt e st (p + 1) c))
      else Inl (p, c))"
  by pat_completeness auto
termination
  by (relation "measure (\<lambda>(txt, e, st, p, c). Suc e - p)") auto

text \<open>
  \<^verbatim>\<open>rspamd_dkim_parse_key\<close>. After the loop, \<^verbatim>\<open>p - c == 0\<close> selects KEYREVOKED,
  anything else KEYFAIL.
\<close>

definition rspamd_dkim_parse_key :: "env \<Rightarrow> string \<Rightarrow> dkim_sigerror + rspamd_dkim_key" where
  "rspamd_dkim_parse_key E txt =
     (case parse_key_loop txt (strlen txt) 0 0 0 of
        Inr (c, n) \<Rightarrow> rspamd_dkim_make_key E txt c n
      | Inl (p, c) \<Rightarrow>
          (if p = c then Inl DKIM_SIGERROR_KEYREVOKED else Inl DKIM_SIGERROR_KEYFAIL))"

section \<open>DNS adapter\<close>

text \<open>
  Modelled from the spec: the response codes of \<^verbatim>\<open>dns.h\<close> are not in the source at
  hand; the spec names success and NXDOMAIN, and the standard DNS codes are listed with
  them. The callback compares the code with \<^verbatim>\<open>DNS_RC_NOERROR\<close> only.
\<close>

datatype dns_rcode =
    DNS_RC_NOERROR
  | DNS_RC_FORMERR
  | DNS_RC_SERVFAIL
  | DNS_RC_NXDOMAIN
  | DNS_RC_NOTIMP
  | DNS_RC_REFUSED

record rspamd_dns_reply =
  code :: dns_rcode
  elements :: "string list"

text \<open>
  One invocation of \<^verbatim>\<open>cbdata->handler (key, keylen, ctx, ud, err)\<close>: the key (or
  NULL), the key length and the error (or NULL).
\<close>

type_synonym handler_call = "rspamd_dkim_key option \<times> nat \<times> dkim_sigerror option"

text \<open>
  The \<^verbatim>\<open>while (cur)\<close> loop over the TXT records. \<open>err\<close> is the \<^verbatim>\<open>GError\<close> cell:
  \<^verbatim>\<open>g_set_error\<close> stores an error only into an empty cell, so the first error
  stays. The loop stops at the first record that gives a key. \<open>key\<close> is the local
  variable, \<open>None\<close> while it is unassigned (the source does not initialise it) and
  \<open>Some None\<close> for NULL.
\<close>

fun dns_cb_loop ::
  "env \<Rightarrow> string list \<Rightarrow> rspamd_dkim_key option option \<Rightarrow> dkim_sigerror option \<Rightarrow>
   rspamd_dkim_key option option \<times> dkim_sigerror option" where
  "dns_cb_loop E [] key err = (key, err)"
| "dns_cb_loop E (elt # cur) key err =
     (case rspamd_dkim_parse_key E elt of
        Inr k \<Rightarrow> (Some (Some k), err)
      | Inl e \<Rightarrow> dns_cb_loop E cur (Some None) (case err of None \<Rightarrow> Some e | Some e0 \<Rightarrow> Some e0))"

text \<open>
  \<^verbatim>\<open>rspamd_dkim_dns_cb\<close>: the list of handler invocations it makes. \<open>None\<close> stands
  for the read of the unassigned \<open>key\<close> when a successful reply has no elements.
\<close>

definition rspamd_dkim_dns_cb :: "env \<Rightarrow> rspamd_dns_reply \<Rightarrow> handler_call list option" where
  "rspamd_dkim_dns_cb E reply =
     (if code reply \<noteq> DNS_RC_NOERROR
      then Some [(None, 0, Some DKIM_SIGERROR_NOKEY)]
      else (case dns_cb_loop E (elements reply) None None of
              (None, err) \<Rightarrow> None
            | (Some key, err) \<Rightarrow>
                Some [(key, 0, if key \<noteq> None \<and> err \<noteq> None then None else err)]))"

declare parse_key_loop.simps [simp del]

section \<open>Body canonicalization\<close>

text \<open>
  \<^verbatim>\<open>g_checksum_update (checksum, data, length)\<close> on a checksum represented by the bytes
  fed so far; a negative length means a NUL-terminated string.
\<close>

definition g_checksum_update :: "string \<Rightarrow> string \<Rightarrow> nat \<Rightarrow> int \<Rightarrow> string" where
  "g_checksum_update hash m off n =
     (if n < 0 then hash @ takeWhile (\<lambda>c. c \<noteq> NUL) (drop off m)
      else hash @ mem_slice m off (nat n))"

text \<open>Reading through a pointer that may have moved before the buffer.\<close>

definition ati :: "string \<Rightarrow> int \<Rightarrow> char" where
  "ati m i = (if 0 \<le> i then at m (nat i) else NUL)"

text \<open>Modelled from the spec: \<^verbatim>\<open>BUFSIZ\<close> of the C library, the size of the chunks.\<close>

definition BUFSIZ :: nat where "BUFSIZ = 8192"

text \<open>
  The loop \<^verbatim>\<open>while (len && inlen)\<close> of \<^verbatim>\<open>rspamd_dkim_relaxed_body_step\<close>: \<open>h\<close> is
  the read offset, \<open>t\<close> the bytes written to the chunk buffer so far (\<^verbatim>\<open>t --\<close> drops
  the last of them).
\<close>

function relaxed_body_loop ::
  "string \<Rightarrow> nat \<Rightarrow> nat \<Rightarrow> nat \<Rightarrow> bool \<Rightarrow> string \<Rightarrow> nat \<times> string" where
  "relaxed_body_loop m h n inlen got_sp t =
     (if n \<noteq> 0 \<and> inlen \<noteq> 0 then
        (if at m h = CR \<or> at m h = LF then
           relaxed_body_loop m (h + 1) (n - 1) (inlen - 1) False
             ((if got_sp then butlast t else t) @ [at m h])
         else if g_ascii_isspace (at m h) then
           (if got_sp then relaxed_body_loop m (h + 1) (n - 1) inlen got_sp t
            else relaxed_body_loop m (h + 1) (n - 1) (inlen - 1) True (t @ [CHR '' '']))
         else relaxed_body_loop m (h + 1) (n - 1) (inlen - 1) False (t @ [at m h]))
      else (h, t))"
  by pat_completeness auto
termination
  by (relation "measure (\<lambda>(m, h, n, inlen, got_sp, t). n)") auto

declare relaxed_body_loop.simps [simp del]

text \<open>
  \<^verbatim>\<open>rspamd_dkim_relaxed_body_step (ck, &start, remain)\<close>: the result \<^verbatim>\<open>!finished\<close>,
  the new \<open>start\<close> and the checksum.
\<close>

definition rspamd_dkim_relaxed_body_step ::
  "string \<Rightarrow> string \<Rightarrow> nat \<Rightarrow> nat \<Rightarrow> bool \<times> nat \<times> string" where
  "rspamd_dkim_relaxed_body_step ck m start remain =
     (let n = (if remain > BUFSIZ then BUFSIZ else remain);
          finished = \<not> remain > BUFSIZ;
          (h, t) = relaxed_body_loop m start n n False []
      in (\<not> finished, h, ck @ t))"

text \<open>The conversion of a pointer difference to \<^verbatim>\<open>guint\<close>.\<close>

definition guint_of :: "int \<Rightarrow> nat" where
  "guint_of i = nat (i mod 2 ^ 32)"

lemma relaxed_body_loop_fst:
  "n \<le> inlen \<Longrightarrow> fst (relaxed_body_loop m h n inlen got_sp t) = h + n"
proof (induction m h n inlen got_sp t rule: relaxed_body_loop.induct)
  case (1 m h n inlen got_sp t)
  show ?case
  proof (cases "n \<noteq> 0 \<and> inlen \<noteq> 0")
    case True
    with 1 show ?thesis
      by (subst relaxed_body_loop.simps) (auto split: if_splits)
  next
    case False
    with "1.prems" show ?thesis
      by (subst relaxed_body_loop.simps) auto
  qed
qed

lemma relaxed_body_step_progress:
  assumes "rspamd_dkim_relaxed_body_step ck m start (guint_of (e - int start + 1)) = (True, start', ck')"
  shows "guint_of (e - int start' + 1) < guint_of (e - int start + 1)"
proof -
  let ?r = "guint_of (e - int start + 1)"
  from assms have big: "?r > BUFSIZ"
    by (auto simp: rspamd_dkim_relaxed_body_step_def Let_def split: prod.splits if_splits)
  with assms have "start' = fst (relaxed_body_loop m start BUFSIZ BUFSIZ False [])"
    by (auto simp: rspamd_dkim_relaxed_body_step_def Let_def split: prod.splits)
  then have s': "start' = start + BUFSIZ"
    by (simp add: relaxed_body_loop_fst)
  have lt: "(e - int start + 1) mod 2 ^ 32 > int BUFSIZ"
    using big by (simp add: guint_of_def)
  have "(e - int start' + 1) mod 2 ^ 32 = ((e - int start + 1) mod 2 ^ 32 - int BUFSIZ) mod 2 ^ 32"
    unfolding s' by (simp add: mod_diff_left_eq algebra_simps)
  also have "\<dots> = (e - int start + 1) mod 2 ^ 32 - int BUFSIZ"
    using lt by (intro mod_pos_pos_trivial) (auto simp: BUFSIZ_def)
  finally show ?thesis
    using lt by (simp add: guint_of_def BUFSIZ_def)
qed

text \<open>
  \<^verbatim>\<open>while (rspamd_dkim_relaxed_body_step (ctx->body_hash, &start, end - start + 1));\<close>
\<close>

function relaxed_body :: "string \<Rightarrow> int \<Rightarrow> nat \<Rightarrow> string \<Rightarrow> nat \<times> string" where
  "relaxed_body m e start ck =
     (case rspamd_dkim_relaxed_body_step ck m start (guint_of (e - int start + 1)) of
        (True, start', ck') \<Rightarrow> relaxed_body m e start' ck'
      | (False, start', ck') \<Rightarrow> (start', ck'))"
  by pat_completeness auto
termination
  by (relation "measure (\<lambda>(m, e, start, ck). guint_of (e - int start + 1))")
     (auto simp: relaxed_body_step_progress [OF sym])

declare relaxed_body.simps [simp del]

text \<open>
  The loop of \<^verbatim>\<open>rspamd_dkim_canonize_body\<close> that moves \<open>end\<close> back over trailing
  empty lines; \<open>e\<close> is \<open>end\<close> after \<^verbatim>\<open>end --\<close>, the offset of the last byte.
\<close>

function body_strip :: "string \<Rightarrow> nat \<Rightarrow> int \<Rightarrow> int" where
  "body_strip m start e =
     (if e > int start + 2 then
        (if ati m e = LF \<and> ati m (e - 1) = CR \<and> ati m (e - 2) = LF
         then body_strip m start (e - 2)
         else e)
      else e)"
  by pat_completeness auto
termination
  by (relation "measure (\<lambda>(m, start, e). nat (e - int start))") auto

declare body_strip.simps [simp del]

text \<open>
  \<^verbatim>\<open>rspamd_dkim_canonize_body (ctx, start, end)\<close>: the context with the body checksum
  fed, and the result. \<open>start\<close> is \<open>None\<close> for NULL. The branch for NULL feeds CRLF and
  then reaches the \<^verbatim>\<open>return FALSE\<close> at the end of the function.
\<close>

definition rspamd_dkim_canonize_body ::
  "rspamd_dkim_context \<Rightarrow> string \<Rightarrow> nat option \<Rightarrow> nat \<Rightarrow> rspamd_dkim_context \<times> bool" where
  "rspamd_dkim_canonize_body ctx m start_opt end0 =
     (case start_opt of
        None \<Rightarrow> (ctx\<lparr>body_hash := g_checksum_update (body_hash ctx) CRLF 0 2\<rparr>, False)
      | Some start \<Rightarrow>
          (let e = body_strip m start (int end0 - 1)
           in if e = int start \<or> e = int start + 2
              then (ctx\<lparr>body_hash := g_checksum_update (body_hash ctx) CRLF 0 2\<rparr>, True)
              else
                (let ck1 =
                       (if body_canon_type ctx = DKIM_CANON_SIMPLE
                        then g_checksum_update (body_hash ctx) m start (e - int start + 1)
                        else snd (relaxed_body m e start (body_hash ctx)));
                     ck2 =
                       (if ati m e \<noteq> LF \<or> ati m (e - 1) \<noteq> CR
                        then g_checksum_update ck1 CRLF 0 2
                        else ck1)
                 in (ctx\<lparr>body_hash := ck2\<rparr>, True))))"

section \<open>Header canonicalization\<close>

text \<open>
  The scan of \<^verbatim>\<open>rspamd_dkim_signature_update\<close> over \<^verbatim>\<open>[begin, end)\<close>: it feeds the
  bytes from \<open>c\<close> through \<^verbatim>\<open>b=\<close> when it meets that tag, and returns the final \<open>c\<close>
  with the checksum.
\<close>

function signature_scan ::
  "string \<Rightarrow> nat \<Rightarrow> nat \<Rightarrow> nat \<Rightarrow> bool \<Rightarrow> bool \<Rightarrow> string \<Rightarrow> nat \<times> string" where
  "signature_scan m e p c tag skip ck =
     (if p < e then
        (if tag \<and> at m p = CHR ''b'' \<and> at m (p + 1) = CHR ''=''
         then signature_scan m e (p + 1) c tag True (g_checksum_update ck m c (int p - int c + 2))
         else if skip \<and> (at m p = CHR '';'' \<or> p = e - 1)
         then signature_scan m e (p + 1) p tag False ck
         else if \<not> tag \<and> at m p = CHR '';''
         then signature_scan m e (p + 1) c True skip ck
         else if tag \<and> at m p = CHR ''=''
         then signature_scan m e (p + 1) c False skip ck
         else signature_scan m e (p + 1) c tag skip ck)
      else (c, ck))"
  by pat_completeness auto
termination
  by (relation "measure (\<lambda>(m, e, p, c, tag, skip, ck). e - p)") auto

declare signature_scan.simps [simp del]

text \<open>
  \<^verbatim>\<open>while ((*p == '\r' || *p == '\n') && p >= c) p --\<close>, on \<open>q = p + 1\<close>: the loop
  leaves \<open>p\<close> at \<open>c - 1\<close> or at the last byte from \<open>c\<close> on that is neither CR nor LF,
  and the byte it reads at \<open>c - 1\<close> has no influence on that.
\<close>

function signature_trim :: "string \<Rightarrow> nat \<Rightarrow> nat \<Rightarrow> nat" where
  "signature_trim m c q =
     (if q > c \<and> (at m (q - 1) = CR \<or> at m (q - 1) = LF) then signature_trim m c (q - 1) else q)"
  by pat_completeness auto
termination
  by (relation "measure (\<lambda>(m, c, q). q)") auto

declare signature_trim.simps [simp del]

text \<open>
  \<^verbatim>\<open>rspamd_dkim_signature_update (ctx, begin, len)\<close> on the headers checksum; \<open>m\<close> is
  the buffer \<open>begin\<close> points into.
\<close>

definition rspamd_dkim_signature_update :: "string \<Rightarrow> string \<Rightarrow> nat \<Rightarrow> nat \<Rightarrow> string" where
  "rspamd_dkim_signature_update ck m begin n =
     (case signature_scan m (begin + n) begin begin True False ck of
        (c, ck1) \<Rightarrow>
          (let q = signature_trim m c (begin + n)
           in if q > c then g_checksum_update ck1 m c (int q - int c) else ck1))"

text \<open>
  The loop \<^verbatim>\<open>while (*h)\<close> over the header value in
  \<^verbatim>\<open>rspamd_dkim_canonize_header_relaxed\<close>; \<open>t\<close> is the buffer written so far.
\<close>

function relaxed_value_loop :: "string \<Rightarrow> nat \<Rightarrow> bool \<Rightarrow> string \<Rightarrow> string" where
  "relaxed_value_loop hdr h got_sp t =
     (if at hdr h \<noteq> NUL then
        (if g_ascii_isspace (at hdr h) then
           (if got_sp then relaxed_value_loop hdr (h + 1) got_sp t
            else relaxed_value_loop hdr (h + 1) True (t @ [CHR '' '']))
         else relaxed_value_loop hdr (h + 1) False (t @ [at hdr h]))
      else t)"
  by pat_completeness auto
termination
  by (relation "measure (\<lambda>(hdr, h, got_sp, t). length hdr - h)")
     (auto simp: at_def split: if_splits)

declare relaxed_value_loop.simps [simp del]

text \<open>
  The buffer \<^verbatim>\<open>rspamd_dkim_canonize_header_relaxed\<close> builds: the lowercased name, the
  colon, the value, one trailing white space removed, and CRLF.
\<close>

definition relaxed_header_buf :: "string \<Rightarrow> string \<Rightarrow> string" where
  "relaxed_header_buf header header_name =
     (let t0 = map g_ascii_tolower (takeWhile (\<lambda>c. c \<noteq> NUL) header_name) @ [CHR '':''];
          t1 = relaxed_value_loop header 0 False t0;
          t2 = (if g_ascii_isspace (last t1) then butlast t1 else t1)
      in t2 @ [CR, LF])"

definition rspamd_dkim_canonize_header_relaxed ::
  "rspamd_dkim_context \<Rightarrow> string \<Rightarrow> string \<Rightarrow> bool \<Rightarrow> rspamd_dkim_context \<times> bool" where
  "rspamd_dkim_canonize_header_relaxed ctx header header_name is_sign =
     (let buf = relaxed_header_buf header header_name
      in if \<not> is_sign
         then (ctx\<lparr>headers_hash := g_checksum_update (headers_hash ctx) buf 0 (int (length buf))\<rparr>,
               True)
         else (ctx\<lparr>headers_hash :=
                     rspamd_dkim_signature_update (headers_hash ctx) buf 0 (length buf)\<rparr>,
               True))"

text \<open>
  The loop \<^verbatim>\<open>while (*p)\<close> of \<^verbatim>\<open>rspamd_dkim_canonize_header_simple\<close> over the raw
  header block, with the states 0 (compare the name), 1 (skip the header) and 2 (find
  the end of the header and feed it). \<^verbatim>\<open>g_ascii_strncasecmp\<close> compares \<open>hlen\<close> bytes
  without regard to case.
\<close>

function simple_header_loop ::
  "string \<Rightarrow> string \<Rightarrow> bool \<Rightarrow> nat \<Rightarrow> nat \<Rightarrow> nat \<Rightarrow> bool \<Rightarrow> string \<Rightarrow> string \<times> bool" where
  "simple_header_loop m header_name is_sign st p c found ck =
     (if at m p \<noteq> NUL then
        (if st = 0 then
           (if at m p = CHR '':'' then
              (if p - c = strlen header_name \<and>
                  map g_ascii_tolower (mem_slice m c (strlen header_name)) =
                  map g_ascii_tolower (take (strlen header_name) header_name)
               then simple_header_loop m header_name is_sign 2 (p + 1) c found ck
               else simple_header_loop m header_name is_sign 1 (p + 1) c found ck)
            else simple_header_loop m header_name is_sign 0 (p + 1) c found ck)
         else if st = 1 then
           (if at m p = LF \<and> \<not> g_ascii_isspace (at m (p + 1))
            then simple_header_loop m header_name is_sign 0 (p + 1) (p + 1) found ck
            else simple_header_loop m header_name is_sign 1 (p + 1) c found ck)
         else
           (if at m p = LF \<and> (\<not> g_ascii_isspace (at m (p + 1)) \<or> at m (p + 1) = NUL)
            then simple_header_loop m header_name is_sign 0 (p + 1) (p + 1) True
                   (if \<not> is_sign then g_checksum_update ck m c (int p - int c + 1)
                    else rspamd_dkim_signature_update ck m c (p - c + 1))
            else simple_header_loop m header_name is_sign st (p + 1) c found ck))
      else (ck, found))"
  by pat_completeness auto
termination
  by (relation "measure (\<lambda>(m, header_name, is_sign, st, p, c, found, ck). length m - p)")
     (auto simp: at_def split: if_splits)

declare simple_header_loop.simps [simp del]

definition rspamd_dkim_canonize_header_simple ::
  "rspamd_dkim_context \<Rightarrow> string \<Rightarrow> string \<Rightarrow> bool \<Rightarrow> rspamd_dkim_context \<times> bool" where
  "rspamd_dkim_canonize_header_simple ctx headers header_name is_sign =
     (case simple_header_loop headers header_name is_sign 0 0 0 False (headers_hash ctx) of
        (ck, found) \<Rightarrow> (ctx\<lparr>headers_hash := ck\<rparr>, found))"

text \<open>
  The task: the message \<^verbatim>\<open>task->msg\<close> as the buffer at \<^verbatim>\<open>begin\<close> with its length
  \<^verbatim>\<open>len\<close>, the raw header block, and the header table \<^verbatim>\<open>task->raw_headers\<close> as the
  chain of values \<^verbatim>\<open>g_hash_table_lookup\<close> gives for a name (empty for NULL).
\<close>

record worker_task =
  msg_begin :: string
  msg_len :: nat
  raw_headers_str :: string
  raw_headers :: "string \<Rightarrow> string list"

text \<open>
  The loop \<^verbatim>\<open>while (rh)\<close> of \<^verbatim>\<open>rspamd_dkim_canonize_header\<close>: every value of the chain,
  or only the first one for the signature header.
\<close>

fun relaxed_chain ::
  "rspamd_dkim_context \<Rightarrow> string list \<Rightarrow> string \<Rightarrow> bool \<Rightarrow> rspamd_dkim_context \<times> bool" where
  "relaxed_chain ctx [] header_name is_sig = (ctx, True)"
| "relaxed_chain ctx (v # rh) header_name is_sig =
     (case rspamd_dkim_canonize_header_relaxed ctx v header_name is_sig of
        (ctx', False) \<Rightarrow> (ctx', False)
      | (ctx', True) \<Rightarrow>
          (if \<not> is_sig then relaxed_chain ctx' rh header_name is_sig else (ctx', True)))"

definition rspamd_dkim_canonize_header ::
  "rspamd_dkim_context \<Rightarrow> worker_task \<Rightarrow> string \<Rightarrow> bool \<Rightarrow> rspamd_dkim_context \<times> bool" where
  "rspamd_dkim_canonize_header ctx task header_name is_sig =
     (if header_canon_type ctx = DKIM_CANON_SIMPLE
      then rspamd_dkim_canonize_header_simple ctx (raw_headers_str task) header_name is_sig
      else (case raw_headers task header_name of
              [] \<Rightarrow> (ctx, False)
            | rh \<Rightarrow> relaxed_chain ctx rh header_name is_sig))"

section \<open>The verifier\<close>

datatype verdict = DKIM_CONTINUE | DKIM_REJECT | DKIM_RECORD_ERROR

text \<open>
  The search for the end of the headers in \<^verbatim>\<open>rspamd_dkim_check\<close>,
  \<^verbatim>\<open>while (p <= end)\<close>; \<open>None\<close> when \<^verbatim>\<open>headers_end\<close> stays NULL. The last iteration
  reads the byte at \<open>end\<close>, one past the message.
\<close>

function find_headers_end ::
  "string \<Rightarrow> nat \<Rightarrow> nat \<Rightarrow> bool \<Rightarrow> bool \<Rightarrow> bool \<Rightarrow> nat option" where
  "find_headers_end m e p got_cr got_crlf got_lf =
     (if p \<le> e then
        (if at m p = LF then
           (if got_cr \<and> at m (p - 1) = CR then
              (if got_crlf then Some (p + 1)
               else find_headers_end m e (p + 1) False True got_lf)
            else if got_cr \<and> at m (p - 1) \<noteq> CR then
              (if at m (p - 1) = LF then Some (p + 1)
               else find_headers_end m e (p + 1) False got_crlf True)
            else if got_lf \<and> at m (p - 1) = LF then Some (p + 1)
            else find_headers_end m e (p + 1) got_cr got_crlf True)
         else if at m p = CR then
           (if got_cr \<and> at m (p - 1) = CR then Some (p + 1)
            else if got_lf \<and> at m (p - 1) = LF then Some (p + 1)
            else find_headers_end m e (p + 1) True got_crlf got_lf)
         else find_headers_end m e (p + 1) False False got_lf)
      else None)"
  by pat_completeness auto
termination
  by (relation "measure (\<lambda>(m, e, p, got_cr, got_crlf, got_lf). Suc e - p)") auto

declare find_headers_end.simps [simp del]

text \<open>The cast \<^verbatim>\<open>(gint)ctx->len\<close>.\<close>

definition gint_of :: "nat \<Rightarrow> int" where
  "gint_of n = sint (word_of_nat n :: 32 word)"

text \<open>The choice of \<open>body_end\<close>.\<close>

definition body_end_of :: "rspamd_dkim_context \<Rightarrow> nat option \<Rightarrow> nat \<Rightarrow> nat" where
  "body_end_of ctx headers_end e =
     (case headers_end of
        Some he \<Rightarrow>
          (if len ctx = 0 \<or> gint_of (len ctx) > int e - int he then e else he + len ctx)
      | None \<Rightarrow> e)"

text \<open>The loop over \<^verbatim>\<open>ctx->hlist\<close>; \<open>False\<close> is its \<^verbatim>\<open>return DKIM_RECORD_ERROR\<close>.\<close>

fun canonize_hlist ::
  "rspamd_dkim_context \<Rightarrow> worker_task \<Rightarrow> string list \<Rightarrow> rspamd_dkim_context \<times> bool" where
  "canonize_hlist ctx task [] = (ctx, True)"
| "canonize_hlist ctx task (h # cur) =
     (case rspamd_dkim_canonize_header ctx task h False of
        (ctx', False) \<Rightarrow> (ctx', False)
      | (ctx', True) \<Rightarrow> canonize_hlist ctx' task cur)"

text \<open>
  The digest of a checksum. The checksums of a context are created for its algorithm,
  SHA-1 or SHA-256.
\<close>

definition checksum_digest :: "env \<Rightarrow> dkim_sign \<Rightarrow> string \<Rightarrow> string" where
  "checksum_digest E alg ck = (if alg = DKIM_SIGN_RSASHA256 then sha256 E ck else sha1 E ck)"

definition bytes_of :: "string option \<Rightarrow> string" where
  "bytes_of x = (case x of None \<Rightarrow> [] | Some s \<Rightarrow> s)"

text \<open>
  \<^verbatim>\<open>rspamd_dkim_check\<close>: the verdict, and the context with what was fed to its two
  checksums. \<^verbatim>\<open>memcmp (ctx->bh, digest, dlen)\<close> compares the first \<open>dlen\<close> bytes, where
  \<open>dlen\<close> is the length of the digest.
\<close>

definition rspamd_dkim_check ::
  "env \<Rightarrow> rspamd_dkim_context \<Rightarrow> rspamd_dkim_key \<Rightarrow> worker_task \<Rightarrow> verdict \<times> rspamd_dkim_context" where
  "rspamd_dkim_check E ctx key task =
     (let m = msg_begin task;
          e = msg_len task;
          headers_end = find_headers_end m e 0 False False False;
          body_end = body_end_of ctx headers_end e
      in case rspamd_dkim_canonize_body ctx m headers_end body_end of
           (ctx1, False) \<Rightarrow> (DKIM_RECORD_ERROR, ctx1)
         | (ctx1, True) \<Rightarrow>
             (case canonize_hlist ctx1 task (hlist ctx1) of
                (ctx2, False) \<Rightarrow> (DKIM_RECORD_ERROR, ctx2)
              | (ctx2, True) \<Rightarrow>
                  (let ctx3 = fst (rspamd_dkim_canonize_header ctx2 task DKIM_SIGNHEADER True);
                       digest = checksum_digest E (sig_alg ctx3) (body_hash ctx3)
                   in if take (length digest) (bytes_of (bh ctx3)) \<noteq> digest
                      then (DKIM_REJECT, ctx3)
                      else
                        (let hdigest = checksum_digest E (sig_alg ctx3) (headers_hash ctx3);
                             nid = (if sig_alg ctx3 = DKIM_SIGN_RSASHA256 then NID_sha256
                                    else NID_sha1)
                         in if have_openssl E \<and>
                               \<not> rsa_verify E nid hdigest (bytes_of (b ctx3)) (key_rsa key)
                            then (DKIM_REJECT, ctx3)
                            else (DKIM_CONTINUE, ctx3)))))"

section \<open>An environment for concrete evaluation\<close>

text \<open>
  A fixed choice of the collaborators, used where a statement is evaluated on a concrete
  input: decoding leaves the text as it is, every key is accepted, the digests are the
  first 20 and 32 bytes of the input padded with NUL, and the number parser reads
  decimal digits.
\<close>

definition digits_value :: "string \<Rightarrow> nat option" where
  "digits_value s =
     (if s \<noteq> [] \<and> (\<forall>ch \<in> set s. 48 \<le> (of_char ch :: nat) \<and> (of_char ch :: nat) \<le> 57)
      then Some (foldl (\<lambda>v ch. 10 * v + ((of_char ch :: nat) - 48)) 0 s)
      else None)"

definition example_env :: env where
  "example_env =
     \<lparr>base64_decode = (\<lambda>t n. (t, length t)),
      have_openssl = True,
      pubkey_of = (\<lambda>d. Some d),
      rsa_verify = (\<lambda>n d s k. True),
      sha1 = (\<lambda>x. take 20 (x @ replicate 20 NUL)),
      sha256 = (\<lambda>x. take 32 (x @ replicate 32 NUL)),
      strtoul = digits_value,
      now = 1000\<rparr>"

text \<open>A key and a context of the kind context creation returns, for concrete inputs.\<close>

definition example_key :: rspamd_dkim_key where
  "example_key = \<lparr>keydata = [], keylen = 1, decoded_len = 0, key_rsa = Some []\<rparr>"

definition example_ctx :: rspamd_dkim_context where
  "example_ctx =
     new_context\<lparr>sig_alg := DKIM_SIGN_RSASHA1, domain := Some ''example.com'',
       selector := Some ''sel'', b := Some ''sig'', blen := 3,
       bh := Some (sha1 example_env CRLF), bhlen := 20, hlist := [''from''], ver := 1,
       dns_key := ''sel._domainkey.example.com''\<rparr>"

section \<open>The header/body terminators of the specification\<close>

text \<open>
  The specification names four terminators: CRLF CRLF, LF LF, CR CR and LF CR. A message
  contains a terminator when one of them occurs in it at some offset.
\<close>

definition is_eol :: "char \<Rightarrow> bool" where
  "is_eol ch \<longleftrightarrow> ch = CR \<or> ch = LF"

definition occurs_in :: "string \<Rightarrow> string \<Rightarrow> bool" where
  "occurs_in t m \<longleftrightarrow> list_ex (\<lambda>i. take (length t) (drop i m) = t) [0 ..< Suc (length m)]"

definition header_terminators :: "string list" where
  "header_terminators = [[CR, LF, CR, LF], [LF, LF], [CR, CR], [LF, CR]]"

definition contains_terminator :: "string \<Rightarrow> bool" where
  "contains_terminator m \<longleftrightarrow> list_ex (\<lambda>t. occurs_in t m) header_terminators"

text \<open>A message that is a single header line, with no terminator in it.\<close>

definition unterminated_task :: worker_task where
  "unterminated_task =
     \<lparr>msg_begin = ''From: a@b.c'', msg_len = 11, raw_headers_str = ''From: a@b.c'',
      raw_headers = (\<lambda>n. [])\<rparr>"

text \<open>
  A message with the header \<^verbatim>\<open>From: a\<close> and the body \<^verbatim>\<open>hullo\<close>, while the \<open>bh\<close> of
  \<open>example_ctx\<close> is the digest of another body.
\<close>

definition tampered_task :: worker_task where
  "tampered_task =
     \<lparr>msg_begin = ''From: a'' @ CRLF @ CRLF @ ''hullo'' @ CRLF, msg_len = 18,
      raw_headers_str = ''From: a'' @ CRLF, raw_headers = (\<lambda>n. [])\<rparr>"

section \<open>Relaxed header canonicalization in the words of the specification\<close>

text \<open>
  The specification's relaxed form of a header, for comparison with the buffer the code
  builds: the lowercased name, the colon, the value with every run of white space
  collapsed to one space and the trailing space removed, and CRLF. The rule of the
  specification that removes the white space after the colon is not part of it. White
  space is what \<^verbatim>\<open>g_ascii_isspace\<close> accepts, so a folding CRLF belongs to a run.
\<close>

function collapse_wsp :: "string \<Rightarrow> string" where
  "collapse_wsp [] = []"
| "collapse_wsp (x # xs) =
     (if g_ascii_isspace x then CHR '' '' # collapse_wsp (dropWhile g_ascii_isspace xs)
      else x # collapse_wsp xs)"
  by pat_completeness auto
termination
  by (relation "measure length") (auto simp: length_dropWhile_le less_Suc_eq_le)

definition strip_trailing_space :: "string \<Rightarrow> string" where
  "strip_trailing_space s = (if s \<noteq> [] \<and> last s = CHR '' '' then butlast s else s)"

definition relaxed_header_spec :: "string \<Rightarrow> string \<Rightarrow> string" where
  "relaxed_header_spec name val =
     map g_ascii_tolower name @ '':'' @ strip_trailing_space (collapse_wsp val) @ CRLF"

text \<open>The bytes of a C string: those before the first NUL.\<close>

definition cstring :: "string \<Rightarrow> string" where
  "cstring s = takeWhile (\<lambda>c. c \<noteq> NUL) s"

section \<open>Tags a signature carries\<close>

text \<open>
  A signature carries a tag when the loop dispatched its parser. The required tags are
  listed in the order of the checks after the loop, each with the error of its check;
  for the tag \<open>a\<close> that check sets \<^verbatim>\<open>DKIM_SIGERROR_EMPTY_S\<close>.
\<close>

definition tag_seen :: "dkim_param \<Rightarrow> parse_st \<Rightarrow> bool" where
  "tag_seen prm st \<longleftrightarrow> prm \<in> fst ` set (ps_calls st)"

definition required_params :: "(dkim_param \<times> dkim_sigerror) list" where
  "required_params =
     [(DKIM_PARAM_SIGNATURE, DKIM_SIGERROR_EMPTY_B),
      (DKIM_PARAM_BODYHASH, DKIM_SIGERROR_EMPTY_BH),
      (DKIM_PARAM_DOMAIN, DKIM_SIGERROR_EMPTY_D),
      (DKIM_PARAM_SELECTOR, DKIM_SIGERROR_EMPTY_S),
      (DKIM_PARAM_VERSION, DKIM_SIGERROR_EMPTY_V),
      (DKIM_PARAM_HDRLIST, DKIM_SIGERROR_EMPTY_H),
      (DKIM_PARAM_SIGNALG, DKIM_SIGERROR_EMPTY_S)]"

definition missing_params :: "parse_st \<Rightarrow> (dkim_param \<times> dkim_sigerror) list" where
  "missing_params st = filter (\<lambda>r. \<not> tag_seen (fst r) st) required_params"

text \<open>
  What the loop maintains: a field of the context is unset exactly when the parser of its
  tag was never dispatched, and after a \<open>b\<close> value of length 0 the signature is what
  decoding the empty text gives. A failed parser call leaves the loop in the error state,
  before the end of the input.
\<close>

definition fields_agree :: "parse_st \<Rightarrow> bool" where
  "fields_agree st \<longleftrightarrow>
     (b (ps_new st) = None) = (\<not> tag_seen DKIM_PARAM_SIGNATURE st) \<and>
     (bh (ps_new st) = None) = (\<not> tag_seen DKIM_PARAM_BODYHASH st) \<and>
     (domain (ps_new st) = None) = (\<not> tag_seen DKIM_PARAM_DOMAIN st) \<and>
     (selector (ps_new st) = None) = (\<not> tag_seen DKIM_PARAM_SELECTOR st) \<and>
     (ver (ps_new st) = 0) = (\<not> tag_seen DKIM_PARAM_VERSION st) \<and>
     (hlist (ps_new st) = []) = (\<not> tag_seen DKIM_PARAM_HDRLIST st) \<and>
     (sig_alg (ps_new st) = DKIM_SIGN_UNKNOWN) = (\<not> tag_seen DKIM_PARAM_SIGNALG st)"

definition sig_calls :: "parse_st \<Rightarrow> (dkim_param \<times> nat) list" where
  "sig_calls st = filter (\<lambda>r. fst r = DKIM_PARAM_SIGNATURE) (ps_calls st)"

definition signature_agrees :: "env \<Rightarrow> parse_st \<Rightarrow> bool" where
  "signature_agrees E st \<longleftrightarrow>
     (sig_calls st \<noteq> [] \<and> snd (last (sig_calls st)) = 0 \<longrightarrow>
        b (ps_new st) = Some (fst (base64_decode E [] 0)) \<and>
        blen (ps_new st) = snd (base64_decode E [] 0))"

definition loop_inv :: "env \<Rightarrow> nat \<Rightarrow> parse_st \<Rightarrow> bool" where
  "loop_inv E e st \<longleftrightarrow>
     (fields_agree st \<and> signature_agrees E st) \<or> (ps_state st = DKIM_STATE_ERROR \<and> ps_p st \<le> e)"

text \<open>Two signature headers: one without the tag \<open>a\<close>, one with an empty \<open>b\<close> value.\<close>

definition no_algorithm_sig :: string where
  "no_algorithm_sig =
     ''v=1; d=example.com; s=sel; h=from:to; bh=01234567890123456789; b=c2ln;''"


subsection \<open>The signature scan as a function of the bytes\<close>





section \<open>What one entry of the signed-header list feeds\<close>

text \<open>
  The bytes \<^verbatim>\<open>rspamd_dkim_canonize_header\<close> feeds for one name of the list when it finds
  the header: in simple mode what the loop over the whole raw header block feeds, and
  in relaxed mode the buffer of every value of the chain the header table holds for
  the name. Neither depends on an earlier call.
\<close>

definition entry_feed :: "rspamd_dkim_context \<Rightarrow> worker_task \<Rightarrow> string \<Rightarrow> string" where
  "entry_feed ctx task header_name =
     (if header_canon_type ctx = DKIM_CANON_SIMPLE
      then fst (simple_header_loop (raw_headers_str task) header_name False 0 0 0 False [])
      else concat (map (\<lambda>v. relaxed_header_buf v header_name) (raw_headers task header_name)))"


text \<open>
  A raw header block made of unfolded headers, for the statement of what the simple
  scan feeds: a header is its name, the colon, its value (the CR of the line end
  included when there is one) and LF. A plain header has a name without colon, NUL or
  white space and a value without LF or NUL. \<open>named\<close> is the comparison of the scan:
  \<^verbatim>\<open>g_ascii_strncasecmp\<close> over \<^verbatim>\<open>strlen (header_name)\<close> bytes, on a name of that length.
\<close>

definition render_header :: "string \<times> string \<Rightarrow> string" where
  "render_header nv = fst nv @ [CHR '':''] @ snd nv @ [LF]"

definition plain_header :: "string \<times> string \<Rightarrow> bool" where
  "plain_header nv \<longleftrightarrow>
     list_all (\<lambda>ch. ch \<noteq> CHR '':'' \<and> ch \<noteq> NUL \<and> \<not> g_ascii_isspace ch) (fst nv) \<and>
     list_all (\<lambda>ch. ch \<noteq> LF \<and> ch \<noteq> NUL) (snd nv)"

definition named :: "string \<Rightarrow> string \<times> string \<Rightarrow> bool" where
  "named header_name nv \<longleftrightarrow>
     map g_ascii_tolower (fst nv) =
     map g_ascii_tolower (take (strlen header_name) header_name)"

section \<open>Key-record parser\<close>

lemma at_strlen: "at s (strlen s) = NUL"
  unfolding at_def strlen_def
  using nth_length_takeWhile [of "\<lambda>c. c \<noteq> NUL" s] by auto

text \<open>
  When the loop of the key parser is left, \<open>p\<close> is one past the terminator and \<open>c\<close> is
  at most the terminator: the byte before a \<open>c\<close> set in state 0 is \<open>=\<close>, which the
  terminator is not.
\<close>

lemma parse_key_loop_exit:
  "at s e \<noteq> CHR ''='' \<Longrightarrow> c \<le> e \<Longrightarrow> p \<le> Suc e \<Longrightarrow> parse_key_loop s e st p c = Inl (p', c')
   \<Longrightarrow> p' = Suc e \<and> c' \<le> e"
proof (induction s e st p c rule: parse_key_loop.induct)
  case (1 s e st p c)
  show ?case
  proof (cases "p \<le> e")
    case False
    with "1.prems" show ?thesis
      by (simp add: parse_key_loop.simps [of s e st p c])
  next
    case True
    note le = this
    show ?thesis
    proof (cases "st = 0 \<and> p \<noteq> e \<and> at s p = CHR ''p'' \<and> at s (p + 1) = CHR ''=''")
      case True
      with le "1.prems"(1) have "p + 1 \<noteq> e" by auto
      with True le have "p + 2 \<le> e" by simp
      from "1.prems"(4) True le
      have "parse_key_loop s e 1 (p + 2) (p + 2) = Inl (p', c')"
        by (subst (asm) parse_key_loop.simps) simp
      with True le \<open>p + 2 \<le> e\<close> "1.prems"(1) "1.IH"(1) show ?thesis
        by simp
    next
      case False
      from "1.prems"(4) le
      have "parse_key_loop s e st p c =
              (if st = 0 then parse_key_loop s e 0 (p + 1) c
               else if (at s p = CHR '';'' \<or> p = e) \<and> p > c then Inr (c, p - c)
               else parse_key_loop s e st (p + 1) c)"
        using False by (subst parse_key_loop.simps) auto
      with le "1.prems" "1.IH"(2,3) False show ?thesis
        by (auto split: if_splits)
    qed
  qed
qed

text \<open>
  Consequently the test \<^verbatim>\<open>p - c == 0\<close> after the loop never holds: no TXT record makes
  the key parser fail with KEYREVOKED.
\<close>

lemma parse_key_never_revoked:
  "rspamd_dkim_parse_key E s \<noteq> Inl DKIM_SIGERROR_KEYREVOKED"
proof
  assume a: "rspamd_dkim_parse_key E s = Inl DKIM_SIGERROR_KEYREVOKED"
  have ne: "at s (strlen s) \<noteq> CHR ''=''" by (simp add: at_strlen NUL_def)
  show False
  proof (cases "parse_key_loop s (strlen s) 0 0 0")
    case (Inl pc)
    obtain p c where pc: "pc = (p, c)" by (cases pc)
    from parse_key_loop_exit [OF ne _ _ Inl [unfolded pc]] have "p \<noteq> c" by simp
    with a Inl pc show False by (simp add: rspamd_dkim_parse_key_def)
  next
    case (Inr cl)
    with a show False
      by (auto simp: rspamd_dkim_parse_key_def rspamd_dkim_make_key_def Let_def
               split: prod.splits if_splits option.splits)
  qed
qed

text \<open>
  C2. The claim: a TXT record whose \<^verbatim>\<open>p=\<close> tag is present with an empty value, such as
  \<^verbatim>\<open>v=DKIM1; p=\<close>, makes the key parser fail with KEYREVOKED, and the DNS callback
  delivers KEYREVOKED. On the code the parser leaves its loop with \<open>p\<close> one past \<open>c\<close>,
  so for this record it fails with KEYFAIL, and the callback delivers KEYFAIL.
\<close>

theorem C2_empty_p_gives_keyfail:
  "rspamd_dkim_parse_key E ''v=DKIM1; p='' = Inl DKIM_SIGERROR_KEYFAIL \<and>
   rspamd_dkim_dns_cb E \<lparr>code = DNS_RC_NOERROR, elements = [''v=DKIM1; p='']\<rparr> =
     Some [(None, 0, Some DKIM_SIGERROR_KEYFAIL)]"
  by (simp add: rspamd_dkim_dns_cb_def rspamd_dkim_parse_key_def strlen_def NUL_def
                parse_key_loop.simps at_def)

section \<open>DNS adapter: failed queries\<close>

text \<open>
  C9, as stated: a reply with a code other than success raises NOKEY for NXDOMAIN and
  KEYFAIL for any other code such as SERVFAIL. On the code a SERVFAIL reply is delivered
  as NOKEY.
\<close>

theorem C9_servfail_counterexample:
  "rspamd_dkim_dns_cb example_env \<lparr>code = DNS_RC_SERVFAIL, elements = []\<rparr> =
     Some [(None, 0, Some DKIM_SIGERROR_NOKEY)] \<and>
   rspamd_dkim_dns_cb example_env \<lparr>code = DNS_RC_SERVFAIL, elements = []\<rparr> \<noteq>
     Some [(None, 0, Some DKIM_SIGERROR_KEYFAIL)]"
  by (simp add: rspamd_dkim_dns_cb_def)

text \<open>
  C9, amended: for every reply whose code is not success the callback is invoked exactly
  once, with no key and the error NOKEY, whatever the code is.
\<close>

theorem C9_dns_failure_is_nokey:
  "code reply \<noteq> DNS_RC_NOERROR \<Longrightarrow>
   rspamd_dkim_dns_cb E reply = Some [(None, 0, Some DKIM_SIGERROR_NOKEY)]"
  by (simp add: rspamd_dkim_dns_cb_def)

theorem C9_dns_failure_is_nokey_witness:
  "code \<lparr>code = DNS_RC_NXDOMAIN, elements = []\<rparr> \<noteq> DNS_RC_NOERROR \<and>
   rspamd_dkim_dns_cb example_env \<lparr>code = DNS_RC_NXDOMAIN, elements = []\<rparr> =
     Some [(None, 0, Some DKIM_SIGERROR_NOKEY)]"
  using C9_dns_failure_is_nokey [of "\<lparr>code = DNS_RC_NXDOMAIN, elements = []\<rparr>" example_env]
  by simp

section \<open>Body canonicalization: short bodies\<close>

text \<open>
  C3. The claim: a non-empty body is fed as its own bytes after the trailing CRLF pairs
  are removed, with CRLF appended when it does not end with CRLF; the three bytes
  \<^verbatim>\<open>abc\<close> are fed as \<^verbatim>\<open>abc\<close> and CRLF, never as the CRLF of the empty body. On the
  code, after \<^verbatim>\<open>end --\<close> the test \<^verbatim>\<open>end == start + 2\<close> of the branch commented
  \<^verbatim>\<open>Empty body\<close> holds for every body of three bytes, so \<^verbatim>\<open>abc\<close> is fed as CRLF
  alone, in either canonicalization.
\<close>

theorem C3_three_bytes_fed_as_empty_body:
  "rspamd_dkim_canonize_body ctx ''abc'' (Some 0) 3 =
     (ctx\<lparr>body_hash := body_hash ctx @ CRLF\<rparr>, True) \<and>
   body_hash ctx @ CRLF \<noteq> body_hash ctx @ ''abc'' @ CRLF"
  by (simp add: rspamd_dkim_canonize_body_def body_strip.simps g_checksum_update_def
                mem_slice_def CRLF_def at_def upt_rec)

theorem C3_three_bytes_fed_as_empty_body_witness:
  "rspamd_dkim_canonize_body example_ctx ''abc'' (Some 0) 3 =
     (example_ctx\<lparr>body_hash := CRLF\<rparr>, True)"
  using C3_three_bytes_fed_as_empty_body [of example_ctx]
  by (simp add: example_ctx_def new_context_def)

section \<open>The verifier: a message without a header/body terminator\<close>

lemma canonize_body_None:
  "rspamd_dkim_canonize_body ctx m None be = (ctx\<lparr>body_hash := body_hash ctx @ CRLF\<rparr>, False)"
  by (simp add: rspamd_dkim_canonize_body_def g_checksum_update_def mem_slice_def CRLF_def at_def
                upt_rec)

lemma check_no_headers_end:
  "find_headers_end (msg_begin task) (msg_len task) 0 False False False = None \<Longrightarrow>
   rspamd_dkim_check E ctx key task =
     (DKIM_RECORD_ERROR, ctx\<lparr>body_hash := body_hash ctx @ CRLF\<rparr>)"
  by (simp add: rspamd_dkim_check_def Let_def canonize_body_None)

text \<open>
  The search finds nothing when, from \<open>p\<close> on, two adjacent line-end bytes are always CR
  followed by LF. The flags record what the byte before \<open>p\<close> was.
\<close>

lemma find_headers_end_None:
  assumes "\<And>i. p \<le> Suc i \<Longrightarrow> Suc i \<le> e \<Longrightarrow> is_eol (at m i) \<Longrightarrow> is_eol (at m (Suc i))
             \<Longrightarrow> at m i = CR \<and> at m (Suc i) = LF"
    and "got_cr \<Longrightarrow> 0 < p \<and> at m (p - 1) = CR"
    and "got_crlf \<Longrightarrow> 0 < p \<and> at m (p - 1) = LF"
    and "got_lf \<Longrightarrow> 0 < p"
  shows "find_headers_end m e p got_cr got_crlf got_lf = None"
  using assms
proof (induction m e p got_cr got_crlf got_lf rule: find_headers_end.induct)
  case (1 m e p got_cr got_crlf got_lf)
  note eq = find_headers_end.simps [of m e p got_cr got_crlf got_lf]
  show ?case
  proof (cases "p \<le> e")
    case False
    then show ?thesis by (subst eq) simp
  next
    case True
    have pair: "0 < p \<Longrightarrow> is_eol (at m (p - 1)) \<Longrightarrow> is_eol (at m p) \<Longrightarrow> at m (p - 1) = CR \<and> at m p = LF"
      using "1.prems"(1) [of "p - 1"] True by simp
    have nxt: "p + 1 \<le> Suc i \<Longrightarrow> Suc i \<le> e \<Longrightarrow> is_eol (at m i) \<Longrightarrow> is_eol (at m (Suc i))
                 \<Longrightarrow> at m i = CR \<and> at m (Suc i) = LF" for i
      using "1.prems"(1) [of i] by simp
    have ne: "CR \<noteq> LF" by (simp add: CR_def LF_def)
    consider (lf) "at m p = LF" | (cr) "at m p = CR" | (other) "at m p \<noteq> LF" "at m p \<noteq> CR"
      by blast
    then show ?thesis
    proof cases
      case lf
      show ?thesis
      proof (cases got_cr)
        case gc: True
        with "1.prems"(2) have prev: "0 < p" "at m (p - 1) = CR" by auto
        with "1.prems"(3) ne have ncl: "\<not> got_crlf" by auto
        have "find_headers_end m e (p + 1) False True got_lf = None"
          using True lf gc prev ncl
          by (intro "1.IH"(1) nxt) (auto simp: lf)
        with True lf gc prev ncl show ?thesis by (subst eq) simp
      next
        case ngc: False
        have nl: "\<not> (got_lf \<and> at m (p - 1) = LF)"
          using pair "1.prems"(4) lf ne by (auto simp: is_eol_def)
        have "find_headers_end m e (p + 1) got_cr got_crlf True = None"
          using True lf ngc nl
          by (intro "1.IH"(3) nxt) (auto simp: lf)
        with True lf ngc nl show ?thesis by (subst eq) simp
      qed
    next
      case cr
      have n1: "\<not> (got_cr \<and> at m (p - 1) = CR)"
        using pair "1.prems"(2) cr ne by (auto simp: is_eol_def)
      have n2: "\<not> (got_lf \<and> at m (p - 1) = LF)"
        using pair "1.prems"(4) cr ne by (auto simp: is_eol_def)
      have ncl: "\<not> got_crlf"
        using pair "1.prems"(3) cr ne by (auto simp: is_eol_def)
      have "find_headers_end m e (p + 1) True got_crlf got_lf = None"
        using True cr n1 n2 ncl ne
        by (intro "1.IH"(4) nxt) (auto simp: cr)
      with True cr n1 n2 ne show ?thesis by (subst eq) simp
    next
      case other
      have "find_headers_end m e (p + 1) False False got_lf = None"
        using True other by (intro "1.IH"(5) nxt) auto
      with True other show ?thesis by (subst eq) simp
    qed
  qed
qed

lemma occurs_inI:
  "i \<le> length m \<Longrightarrow> take (length t) (drop i m) = t \<Longrightarrow> occurs_in t m"
  unfolding occurs_in_def list_ex_iff by (rule bexI [of _ i]) auto

lemma no_terminator_pairs:
  assumes nt: "\<not> contains_terminator (take e m)" and last: "\<not> is_eol (at m e)"
    and i: "Suc i \<le> e" and fst: "is_eol (at m i)" and snd: "is_eol (at m (Suc i))"
  shows "at m i = CR \<and> at m (Suc i) = LF"
proof -
  from last snd i have lt: "Suc i < e" by (cases "Suc i = e") auto
  from snd have len: "Suc i < length m"
    by (auto simp: at_def is_eol_def CR_def LF_def NUL_def split: if_splits)
  let ?m = "take e m"
  have tk: "take 2 (drop i ?m) = [at m i, at m (Suc i)]"
    using lt len
    by (simp add: at_def take_Suc_conv_app_nth numeral_2_eq_2 drop_take
                  take_Suc_conv_app_nth [symmetric] list_eq_iff_nth_eq less_Suc_eq)
  have no: "\<not> occurs_in t ?m" if "t \<in> set header_terminators" for t
    using nt that by (auto simp: contains_terminator_def list_ex_iff)
  have "\<not> occurs_in [x, y] ?m \<Longrightarrow> [at m i, at m (Suc i)] \<noteq> [x, y]" for x y
    using occurs_inI [of i ?m "[x, y]"] tk lt len by (auto simp: numeral_2_eq_2)
  from this [OF no, of LF LF] this [OF no, of CR CR] this [OF no, of LF CR] fst snd
  show ?thesis by (auto simp: header_terminators_def is_eol_def)
qed

text \<open>
  C4. The claim: for a message with none of the four terminators the body is treated as
  empty, CRLF is fed into the body hash, and the check goes on to the comparison of the
  body hash and to the headers; the missing terminator is not an error verdict. On the
  code, for every such message (the byte after the message not being CR or LF) CRLF is
  fed, \<^verbatim>\<open>rspamd_dkim_canonize_body\<close> then returns FALSE, and the check returns
  \<^verbatim>\<open>DKIM_RECORD_ERROR\<close> with nothing fed to the headers hash.
\<close>

theorem C4_no_terminator_is_record_error:
  assumes "\<not> contains_terminator (take (msg_len task) (msg_begin task))"
    and "\<not> is_eol (at (msg_begin task) (msg_len task))"
  shows "rspamd_dkim_check E ctx key task =
           (DKIM_RECORD_ERROR, ctx\<lparr>body_hash := body_hash ctx @ CRLF\<rparr>)"
proof -
  have "find_headers_end (msg_begin task) (msg_len task) 0 False False False = None"
    by (rule find_headers_end_None) (use no_terminator_pairs [OF assms] in auto)
  then show ?thesis by (rule check_no_headers_end)
qed

theorem C4_no_terminator_is_record_error_witness:
  "\<not> contains_terminator (take (msg_len unterminated_task) (msg_begin unterminated_task)) \<and>
   \<not> is_eol (at (msg_begin unterminated_task) (msg_len unterminated_task)) \<and>
   rspamd_dkim_check example_env example_ctx example_key unterminated_task =
     (DKIM_RECORD_ERROR, example_ctx\<lparr>body_hash := CRLF\<rparr>)"
proof -
  have 1: "\<not> contains_terminator (take (msg_len unterminated_task) (msg_begin unterminated_task))"
    by (simp add: unterminated_task_def contains_terminator_def header_terminators_def
                  occurs_in_def CR_def LF_def upt_rec)
  have 2: "\<not> is_eol (at (msg_begin unterminated_task) (msg_len unterminated_task))"
    by (simp add: unterminated_task_def is_eol_def at_def NUL_def CR_def LF_def)
  have 3: "body_hash example_ctx = []"
    by (simp add: example_ctx_def new_context_def)
  show ?thesis
    using 1 2 C4_no_terminator_is_record_error [OF 1 2, of example_env example_ctx example_key] 3
    by simp
qed

section \<open>The verifier: the order of header canonicalization and body-hash comparison\<close>

text \<open>
  The canonicalization of the body changes the body checksum only, and the
  canonicalization of headers changes the headers checksum only.
\<close>

lemma canonize_body_fields:
  "fst (rspamd_dkim_canonize_body ctx m s e)\<lparr>body_hash := []\<rparr> = ctx\<lparr>body_hash := []\<rparr>"
  by (simp add: rspamd_dkim_canonize_body_def Let_def split: option.splits)

lemma canonize_header_relaxed_fields:
  "fst (rspamd_dkim_canonize_header_relaxed ctx v n s)\<lparr>headers_hash := []\<rparr> = ctx\<lparr>headers_hash := []\<rparr>"
  by (simp add: rspamd_dkim_canonize_header_relaxed_def Let_def)

lemma canonize_header_simple_fields:
  "fst (rspamd_dkim_canonize_header_simple ctx v n s)\<lparr>headers_hash := []\<rparr> = ctx\<lparr>headers_hash := []\<rparr>"
  by (simp add: rspamd_dkim_canonize_header_simple_def split: prod.splits)

lemma relaxed_chain_fields:
  "fst (relaxed_chain ctx rh n s)\<lparr>headers_hash := []\<rparr> = ctx\<lparr>headers_hash := []\<rparr>"
proof (induction rh arbitrary: ctx)
  case Nil
  show ?case by simp
next
  case (Cons v rh)
  obtain ctx' r where step: "rspamd_dkim_canonize_header_relaxed ctx v n s = (ctx', r)"
    by (cases "rspamd_dkim_canonize_header_relaxed ctx v n s")
  from canonize_header_relaxed_fields [of ctx v n s] step
  have 1: "ctx'\<lparr>headers_hash := []\<rparr> = ctx\<lparr>headers_hash := []\<rparr>" by simp
  show ?case
  proof (cases "r \<and> \<not> s")
    case True
    then have "fst (relaxed_chain ctx (v # rh) n s) = fst (relaxed_chain ctx' rh n s)"
      using step by simp
    with Cons [of ctx'] 1 show ?thesis by simp
  next
    case False
    then have "fst (relaxed_chain ctx (v # rh) n s) = ctx'"
      using step by (cases r) auto
    with 1 show ?thesis by simp
  qed
qed

lemma canonize_header_fields:
  "fst (rspamd_dkim_canonize_header ctx task n s)\<lparr>headers_hash := []\<rparr> = ctx\<lparr>headers_hash := []\<rparr>"
proof (cases "header_canon_type ctx = DKIM_CANON_SIMPLE")
  case True
  then show ?thesis
    by (simp add: rspamd_dkim_canonize_header_def canonize_header_simple_fields)
next
  case False
  then show ?thesis
    using relaxed_chain_fields [of ctx "raw_headers task n" n s]
    by (cases "raw_headers task n") (simp_all add: rspamd_dkim_canonize_header_def)
qed

lemma canonize_hlist_fields:
  "fst (canonize_hlist ctx task hs)\<lparr>headers_hash := []\<rparr> = ctx\<lparr>headers_hash := []\<rparr>"
proof (induction hs arbitrary: ctx)
  case Nil
  show ?case by simp
next
  case (Cons h hs)
  obtain ctx' r where step: "rspamd_dkim_canonize_header ctx task h False = (ctx', r)"
    by (cases "rspamd_dkim_canonize_header ctx task h False")
  from canonize_header_fields [of ctx task h False] step
  have 1: "ctx'\<lparr>headers_hash := []\<rparr> = ctx\<lparr>headers_hash := []\<rparr>" by simp
  show ?case
  proof (cases r)
    case True
    then have "fst (canonize_hlist ctx task (h # hs)) = fst (canonize_hlist ctx' task hs)"
      using step by simp
    with Cons [of ctx'] 1 show ?thesis by simp
  next
    case False
    then have "fst (canonize_hlist ctx task (h # hs)) = ctx'"
      using step by simp
    with 1 show ?thesis by simp
  qed
qed

text \<open>
  C1, as stated: whenever the digest of the canonicalized body differs from \<open>bh\<close> the
  check returns REJECT, even when a header of \<open>hlist\<close> is missing from the message. On the
  code, for the message with the header \<^verbatim>\<open>From\<close> alone and a signed-header list
  \<^verbatim>\<open>from:to\<close>, the body digest differs from \<open>bh\<close> and the check returns
  \<^verbatim>\<open>DKIM_RECORD_ERROR\<close>: the headers are canonicalized before the digest is compared.
\<close>

theorem C1_missing_header_counterexample:
  "fst (rspamd_dkim_check example_env (example_ctx\<lparr>hlist := [''from'', ''to'']\<rparr>) example_key
          tampered_task) = DKIM_RECORD_ERROR \<and>
   checksum_digest example_env DKIM_SIGN_RSASHA1
     (body_hash (snd (rspamd_dkim_check example_env (example_ctx\<lparr>hlist := [''from'', ''to'']\<rparr>)
                        example_key tampered_task)))
     \<noteq> bytes_of (bh (example_ctx\<lparr>hlist := [''from'', ''to'']\<rparr>))"
  by code_simp

text \<open>
  C1, amended: the check canonicalizes the body, then the headers of \<open>hlist\<close>, then the
  signature header, and only then compares the body digest with \<open>bh\<close>. When the body was
  located and canonicalized, a header of \<open>hlist\<close> that is missing gives
  \<^verbatim>\<open>DKIM_RECORD_ERROR\<close> whether or not the body digest matches; when every header of
  \<open>hlist\<close> is found, a body digest that differs from \<open>bh\<close> gives \<^verbatim>\<open>DKIM_REJECT\<close>;
  otherwise the verdict is not \<^verbatim>\<open>DKIM_RECORD_ERROR\<close>.
\<close>

theorem C1_digest_compared_after_headers:
  assumes body: "rspamd_dkim_canonize_body ctx (msg_begin task)
                   (find_headers_end (msg_begin task) (msg_len task) 0 False False False)
                   (body_end_of ctx
                      (find_headers_end (msg_begin task) (msg_len task) 0 False False False)
                      (msg_len task)) = (ctx1, True)"
    and hl: "canonize_hlist ctx1 task (hlist ctx) = (ctx2, found)"
  shows "if \<not> found then fst (rspamd_dkim_check E ctx key task) = DKIM_RECORD_ERROR
         else if take (length (checksum_digest E (sig_alg ctx) (body_hash ctx1)))
                   (bytes_of (bh ctx)) \<noteq> checksum_digest E (sig_alg ctx) (body_hash ctx1)
         then fst (rspamd_dkim_check E ctx key task) = DKIM_REJECT
         else fst (rspamd_dkim_check E ctx key task) \<noteq> DKIM_RECORD_ERROR"
proof -
  let ?he = "find_headers_end (msg_begin task) (msg_len task) 0 False False False"
  let ?ctx3 = "fst (rspamd_dkim_canonize_header ctx2 task DKIM_SIGNHEADER True)"
  have e1: "ctx1\<lparr>body_hash := []\<rparr> = ctx\<lparr>body_hash := []\<rparr>"
    using canonize_body_fields [of ctx "msg_begin task" ?he "body_end_of ctx ?he (msg_len task)"]
    by (simp add: body)
  have e2: "ctx2\<lparr>headers_hash := []\<rparr> = ctx1\<lparr>headers_hash := []\<rparr>"
    using canonize_hlist_fields [of ctx1 task "hlist ctx"] by (simp add: hl)
  have e3: "?ctx3\<lparr>headers_hash := []\<rparr> = ctx2\<lparr>headers_hash := []\<rparr>"
    by (rule canonize_header_fields)
  have hl1: "hlist ctx1 = hlist ctx"
    using arg_cong [OF e1, of hlist] by simp
  have alg: "sig_alg ?ctx3 = sig_alg ctx"
    using arg_cong [OF e1, of sig_alg] arg_cong [OF e2, of sig_alg] arg_cong [OF e3, of sig_alg]
    by simp
  have bh3: "bh ?ctx3 = bh ctx"
    using arg_cong [OF e1, of bh] arg_cong [OF e2, of bh] arg_cong [OF e3, of bh]
    by simp
  have bd: "body_hash ?ctx3 = body_hash ctx1"
    using arg_cong [OF e2, of body_hash] arg_cong [OF e3, of body_hash] by simp
  have chk: "rspamd_dkim_check E ctx key task =
      (if \<not> found then (DKIM_RECORD_ERROR, ctx2)
       else if take (length (checksum_digest E (sig_alg ctx) (body_hash ctx1))) (bytes_of (bh ctx))
                 \<noteq> checksum_digest E (sig_alg ctx) (body_hash ctx1)
       then (DKIM_REJECT, ?ctx3)
       else if have_openssl E \<and>
               \<not> rsa_verify E (if sig_alg ctx = DKIM_SIGN_RSASHA256 then NID_sha256 else NID_sha1)
                    (checksum_digest E (sig_alg ctx) (headers_hash ?ctx3))
                    (bytes_of (b ?ctx3)) (key_rsa key)
       then (DKIM_REJECT, ?ctx3)
       else (DKIM_CONTINUE, ?ctx3))"
    unfolding rspamd_dkim_check_def Let_def body prod.case bool.case hl1 hl alg bh3 bd
    by (cases found) simp_all
  show ?thesis
    unfolding chk by simp
qed

theorem C1_digest_compared_after_headers_witness:
  "rspamd_dkim_canonize_body example_ctx (msg_begin tampered_task)
     (find_headers_end (msg_begin tampered_task) (msg_len tampered_task) 0 False False False)
     (body_end_of example_ctx
        (find_headers_end (msg_begin tampered_task) (msg_len tampered_task) 0 False False False)
        (msg_len tampered_task)) = (example_ctx\<lparr>body_hash := ''hullo'' @ CRLF\<rparr>, True) \<and>
   canonize_hlist (example_ctx\<lparr>body_hash := ''hullo'' @ CRLF\<rparr>) tampered_task (hlist example_ctx) =
     (example_ctx\<lparr>body_hash := ''hullo'' @ CRLF, headers_hash := ''From: a'' @ CRLF\<rparr>, True) \<and>
   take (length (checksum_digest example_env (sig_alg example_ctx) (''hullo'' @ CRLF)))
     (bytes_of (bh example_ctx)) \<noteq> checksum_digest example_env (sig_alg example_ctx) (''hullo'' @ CRLF) \<and>
   fst (rspamd_dkim_check example_env example_ctx example_key tampered_task) = DKIM_REJECT"
proof -
  have h1: "rspamd_dkim_canonize_body example_ctx (msg_begin tampered_task)
     (find_headers_end (msg_begin tampered_task) (msg_len tampered_task) 0 False False False)
     (body_end_of example_ctx
        (find_headers_end (msg_begin tampered_task) (msg_len tampered_task) 0 False False False)
        (msg_len tampered_task)) = (example_ctx\<lparr>body_hash := ''hullo'' @ CRLF\<rparr>, True)"
    by code_simp
  have h2: "canonize_hlist (example_ctx\<lparr>body_hash := ''hullo'' @ CRLF\<rparr>) tampered_task (hlist example_ctx) =
     (example_ctx\<lparr>body_hash := ''hullo'' @ CRLF, headers_hash := ''From: a'' @ CRLF\<rparr>, True)"
    by code_simp
  have h3: "take (length (checksum_digest example_env (sig_alg example_ctx) (''hullo'' @ CRLF)))
     (bytes_of (bh example_ctx)) \<noteq> checksum_digest example_env (sig_alg example_ctx) (''hullo'' @ CRLF)"
    by code_simp
  have h4: "body_hash (example_ctx\<lparr>body_hash := ''hullo'' @ CRLF\<rparr>) = ''hullo'' @ CRLF"
    by simp
  from C1_digest_compared_after_headers [OF h1 h2, of example_env example_key] h3
  have "fst (rspamd_dkim_check example_env example_ctx example_key tampered_task) = DKIM_REJECT"
    unfolding h4 by simp
  with h1 h2 h3 show ?thesis by blast
qed

section \<open>Relaxed header canonicalization\<close>

lemma cstring_drop_Cons:
  "at s h \<noteq> NUL \<Longrightarrow> cstring (drop h s) = at s h # cstring (drop (h + 1) s)"
  by (auto simp: at_def cstring_def Cons_nth_drop_Suc [symmetric] split: if_splits)

lemma cstring_drop_Nil: "at s h = NUL \<Longrightarrow> cstring (drop h s) = []"
  by (cases "h < length s") (auto simp: at_def cstring_def Cons_nth_drop_Suc [symmetric])

lemma relaxed_value_loop_spec:
  "relaxed_value_loop hdr h got_sp t =
     t @ collapse_wsp ((if got_sp then dropWhile g_ascii_isspace else id) (cstring (drop h hdr)))"
proof (induction hdr h got_sp t rule: relaxed_value_loop.induct)
  case (1 hdr h got_sp t)
  show ?case
  proof (cases "at hdr h = NUL")
    case True
    then show ?thesis
      by (subst relaxed_value_loop.simps) (simp add: cstring_drop_Nil)
  next
    case False
    note cs = cstring_drop_Cons [OF False]
    show ?thesis
    proof (cases "g_ascii_isspace (at hdr h)")
      case sp: True
      show ?thesis
      proof (cases got_sp)
        case True
        with False sp "1.IH"(1) show ?thesis
          by (subst relaxed_value_loop.simps) (simp add: cs)
      next
        case g: False
        with False sp "1.IH"(2) show ?thesis
          by (subst relaxed_value_loop.simps) (simp add: cs)
      qed
    next
      case nsp: False
      with False "1.IH"(3) show ?thesis
        by (subst relaxed_value_loop.simps) (simp add: cs)
    qed
  qed
qed

lemma collapse_wsp_space: "x \<in> set (collapse_wsp s) \<Longrightarrow> g_ascii_isspace x \<Longrightarrow> x = CHR '' ''"
proof (induction s rule: collapse_wsp.induct)
  case 1
  then show ?case by simp
next
  case (2 y ys)
  show ?case
  proof (cases "g_ascii_isspace y")
    case True
    with "2.prems"(1) have "x = CHR '' '' \<or> x \<in> set (collapse_wsp (dropWhile g_ascii_isspace ys))"
      by simp
    with "2.IH"(1) [OF True] "2.prems"(2) show ?thesis by blast
  next
    case False
    with "2.prems"(1) have "x = y \<or> x \<in> set (collapse_wsp ys)"
      by simp
    with "2.IH"(2) [OF False] "2.prems"(2) False show ?thesis by blast
  qed
qed

lemma mem_slice_all: "mem_slice s 0 (length s) = s"
proof -
  have "map (at s) [0 ..< length s] = map ((!) s) [0 ..< length s]"
    by (rule map_cong) (simp_all add: at_def)
  then show ?thesis by (simp add: mem_slice_def map_nth)
qed

text \<open>
  C6, as stated: the white space after the colon is removed entirely, so a value that
  begins with spaces or tabs contributes no byte between the colon and its first other
  byte. On the code the header \<^verbatim>\<open>X\<close> with the value \<^verbatim>\<open> a\<close> is canonicalized with one
  space after the colon.
\<close>

theorem C6_leading_wsp_counterexample:
  "relaxed_header_buf '' a'' ''X'' = ''x: a'' @ CRLF \<and>
   relaxed_header_buf '' a'' ''X'' \<noteq> ''x:a'' @ CRLF"
  by code_simp

text \<open>
  C6, amended: for every header name and value, relaxed header canonicalization feeds
  the lowercased name, the colon, and the value with every run of white space (a
  folding CRLF included) collapsed to one space, a leading run like any other, with one
  trailing space removed, followed by CRLF.
\<close>

theorem C6_relaxed_header_collapses_leading_wsp:
  "rspamd_dkim_canonize_header_relaxed ctx header header_name False =
     (ctx\<lparr>headers_hash :=
            headers_hash ctx @ relaxed_header_spec (cstring header_name) (cstring header)\<rparr>, True)"
proof -
  let ?c = "collapse_wsp (cstring header)"
  let ?t0 = "map g_ascii_tolower (cstring header_name) @ [CHR '':'']"
  have loop: "relaxed_value_loop header 0 False ?t0 = ?t0 @ ?c"
    by (simp add: relaxed_value_loop_spec)
  have last: "(if g_ascii_isspace (last (?t0 @ ?c)) then butlast (?t0 @ ?c) else ?t0 @ ?c) =
              ?t0 @ strip_trailing_space ?c"
  proof (cases "?c = []")
    case True
    then show ?thesis by (simp add: strip_trailing_space_def g_ascii_isspace_def)
  next
    case False
    then have "g_ascii_isspace (last ?c) \<longleftrightarrow> last ?c = CHR '' ''"
      using collapse_wsp_space [of "last ?c" "cstring header"]
      by (auto simp: g_ascii_isspace_def)
    with False show ?thesis
      by (simp add: strip_trailing_space_def butlast_append)
  qed
  have buf: "relaxed_header_buf header header_name =
             relaxed_header_spec (cstring header_name) (cstring header)"
    unfolding relaxed_header_buf_def Let_def cstring_def [symmetric] loop last
    by (simp add: relaxed_header_spec_def CRLF_def)
  show ?thesis
    by (simp add: rspamd_dkim_canonize_header_relaxed_def Let_def buf g_checksum_update_def mem_slice_all)
qed

section \<open>Context creation: missing and empty tags\<close>

lemma hdrlist_loop_nonempty:
  "hl \<noteq> [] \<Longrightarrow> fst (hdrlist_loop sig e p c ff hl) \<noteq> []"
proof (induction sig e p c ff hl rule: hdrlist_loop.induct)
  case (1 sig e p c ff hl)
  show ?case
    apply (subst hdrlist_loop.simps)
    using 1 by (simp add: Let_def)
qed

lemma parser_funcs_fields:
  assumes "parser_funcs prm E ctx sig c n = Inr ctx'"
  shows "(b ctx' = None) = (b ctx = None \<and> prm \<noteq> DKIM_PARAM_SIGNATURE)"
    and "(bh ctx' = None) = (bh ctx = None \<and> prm \<noteq> DKIM_PARAM_BODYHASH)"
    and "(domain ctx' = None) = (domain ctx = None \<and> prm \<noteq> DKIM_PARAM_DOMAIN)"
    and "(selector ctx' = None) = (selector ctx = None \<and> prm \<noteq> DKIM_PARAM_SELECTOR)"
    and "(ver ctx' = 0) = (ver ctx = 0 \<and> prm \<noteq> DKIM_PARAM_VERSION)"
    and "(hlist ctx' = []) = (hlist ctx = [] \<and> prm \<noteq> DKIM_PARAM_HDRLIST)"
    and "(sig_alg ctx' = DKIM_SIGN_UNKNOWN) = (sig_alg ctx = DKIM_SIGN_UNKNOWN \<and> prm \<noteq> DKIM_PARAM_SIGNALG)"
proof -
  have hl: "fst (hdrlist_loop sig (c + n) c c False (hlist ctx)) = [] \<Longrightarrow> hlist ctx = []"
    using hdrlist_loop_nonempty [of "hlist ctx" sig "c + n" c c False] by blast
  note defs = rspamd_dkim_parse_signature_def rspamd_dkim_parse_signalg_def
    rspamd_dkim_parse_domain_def rspamd_dkim_parse_canonalg_def rspamd_dkim_parse_ignore_def
    rspamd_dkim_parse_selector_def rspamd_dkim_parse_hdrlist_def rspamd_dkim_parse_version_def
    rspamd_dkim_parse_timestamp_def rspamd_dkim_parse_expiration_def
    rspamd_dkim_parse_bodyhash_def rspamd_dkim_parse_bodylength_def Let_def
  have all: "(b ctx' = None) = (b ctx = None \<and> prm \<noteq> DKIM_PARAM_SIGNATURE) \<and>
     (bh ctx' = None) = (bh ctx = None \<and> prm \<noteq> DKIM_PARAM_BODYHASH) \<and>
     (domain ctx' = None) = (domain ctx = None \<and> prm \<noteq> DKIM_PARAM_DOMAIN) \<and>
     (selector ctx' = None) = (selector ctx = None \<and> prm \<noteq> DKIM_PARAM_SELECTOR) \<and>
     (ver ctx' = 0) = (ver ctx = 0 \<and> prm \<noteq> DKIM_PARAM_VERSION) \<and>
     (hlist ctx' = []) = (hlist ctx = [] \<and> prm \<noteq> DKIM_PARAM_HDRLIST) \<and>
     (sig_alg ctx' = DKIM_SIGN_UNKNOWN) = (sig_alg ctx = DKIM_SIGN_UNKNOWN \<and> prm \<noteq> DKIM_PARAM_SIGNALG)"
  proof (cases prm)
    case DKIM_PARAM_UNKNOWN
    with assms show ?thesis by simp
  next
    case DKIM_PARAM_SIGNATURE
    with assms show ?thesis by (auto simp: defs split: prod.splits)
  next
    case DKIM_PARAM_SIGNALG
    with assms show ?thesis by (auto simp: defs split: if_splits)
  next
    case DKIM_PARAM_DOMAIN
    with assms show ?thesis by (auto simp: defs)
  next
    case DKIM_PARAM_CANONALG
    with assms show ?thesis by (auto simp: defs split: option.splits if_splits)
  next
    case DKIM_PARAM_QUERYMETHOD
    with assms show ?thesis by (auto simp: defs)
  next
    case DKIM_PARAM_SELECTOR
    with assms show ?thesis by (auto simp: defs)
  next
    case DKIM_PARAM_HDRLIST
    with assms hl show ?thesis by (auto simp: defs split: prod.splits if_splits)
  next
    case DKIM_PARAM_VERSION
    with assms show ?thesis by (auto simp: defs split: if_splits)
  next
    case DKIM_PARAM_IDENTITY
    with assms show ?thesis by (auto simp: defs)
  next
    case DKIM_PARAM_TIMESTAMP
    with assms show ?thesis by (auto simp: defs split: option.splits)
  next
    case DKIM_PARAM_EXPIRATION
    with assms show ?thesis by (auto simp: defs split: option.splits)
  next
    case DKIM_PARAM_COPIEDHDRS
    with assms show ?thesis by (auto simp: defs)
  next
    case DKIM_PARAM_BODYHASH
    with assms show ?thesis by (auto simp: defs split: prod.splits)
  next
    case DKIM_PARAM_BODYLENGTH
    with assms show ?thesis by (auto simp: defs split: option.splits)
  qed
  then show "(b ctx' = None) = (b ctx = None \<and> prm \<noteq> DKIM_PARAM_SIGNATURE)"
    and "(bh ctx' = None) = (bh ctx = None \<and> prm \<noteq> DKIM_PARAM_BODYHASH)"
    and "(domain ctx' = None) = (domain ctx = None \<and> prm \<noteq> DKIM_PARAM_DOMAIN)"
    and "(selector ctx' = None) = (selector ctx = None \<and> prm \<noteq> DKIM_PARAM_SELECTOR)"
    and "(ver ctx' = 0) = (ver ctx = 0 \<and> prm \<noteq> DKIM_PARAM_VERSION)"
    and "(hlist ctx' = []) = (hlist ctx = [] \<and> prm \<noteq> DKIM_PARAM_HDRLIST)"
    and "(sig_alg ctx' = DKIM_SIGN_UNKNOWN) = (sig_alg ctx = DKIM_SIGN_UNKNOWN \<and> prm \<noteq> DKIM_PARAM_SIGNALG)"
    by blast+
qed


lemma parser_funcs_signature:
  assumes "parser_funcs prm E ctx sig c n = Inr ctx'"
  shows "if prm = DKIM_PARAM_SIGNATURE
         then b ctx' = Some (fst (base64_decode E (rspamd_strlcpy sig c n) n)) \<and>
              blen ctx' = snd (base64_decode E (rspamd_strlcpy sig c n) n)
         else b ctx' = b ctx \<and> blen ctx' = blen ctx"
proof -
  note defs = rspamd_dkim_parse_signature_def rspamd_dkim_parse_signalg_def
    rspamd_dkim_parse_domain_def rspamd_dkim_parse_canonalg_def rspamd_dkim_parse_ignore_def
    rspamd_dkim_parse_selector_def rspamd_dkim_parse_hdrlist_def rspamd_dkim_parse_version_def
    rspamd_dkim_parse_timestamp_def rspamd_dkim_parse_expiration_def
    rspamd_dkim_parse_bodyhash_def rspamd_dkim_parse_bodylength_def Let_def
  from assms show ?thesis
    by (cases prm) (auto simp: defs split: prod.splits if_splits option.splits)
qed

lemma rspamd_strlcpy_0: "rspamd_strlcpy sig c 0 = []"
  by (simp add: rspamd_strlcpy_def mem_slice_def)

lemma agree_cong:
  "ps_new st' = ps_new st \<Longrightarrow> ps_calls st' = ps_calls st \<Longrightarrow>
   (fields_agree st' \<and> signature_agrees E st') = (fields_agree st \<and> signature_agrees E st)"
  by (simp add: fields_agree_def signature_agrees_def tag_seen_def sig_calls_def)

lemma call_parser_inv:
  assumes agree: "fields_agree st" "signature_agrees E st"
    and p: "ps_p st \<le> e"
    and ok: "\<And>s. ps_new (ok s) = ps_new s \<and> ps_calls (ok s) = ps_calls s"
  shows "loop_inv E e (call_parser E sig st n ok)"
proof (cases "ps_param st = DKIM_PARAM_UNKNOWN")
  case True
  with p show ?thesis by (simp add: call_parser_def loop_inv_def)
next
  case False
  show ?thesis
  proof (cases "parser_funcs (ps_param st) E (ps_new st) sig (ps_c st) n")
    case (Inl err)
    with False p show ?thesis by (simp add: call_parser_def loop_inv_def Let_def)
  next
    case (Inr ctx')
    let ?st' = "st\<lparr>ps_calls := ps_calls st @ [(ps_param st, n)], ps_new := ctx'\<rparr>"
    have res: "call_parser E sig st n ok = ok ?st'"
      using False Inr by (simp add: call_parser_def Let_def)
    note f = parser_funcs_fields [OF Inr]
    have seen: "tag_seen prm ?st' = (ps_param st = prm \<or> tag_seen prm st)" for prm
      by (auto simp: tag_seen_def)
    have fa: "fields_agree ?st'"
      unfolding fields_agree_def
    proof (intro conjI)
      have "(b (ps_new st) = None) = (\<not> tag_seen DKIM_PARAM_SIGNATURE st)"
        using agree(1) by (simp add: fields_agree_def)
      with f(1) show "(b (ps_new ?st') = None) = (\<not> tag_seen DKIM_PARAM_SIGNATURE ?st')"
        unfolding seen by auto
      have "(bh (ps_new st) = None) = (\<not> tag_seen DKIM_PARAM_BODYHASH st)"
        using agree(1) by (simp add: fields_agree_def)
      with f(2) show "(bh (ps_new ?st') = None) = (\<not> tag_seen DKIM_PARAM_BODYHASH ?st')"
        unfolding seen by auto
      have "(domain (ps_new st) = None) = (\<not> tag_seen DKIM_PARAM_DOMAIN st)"
        using agree(1) by (simp add: fields_agree_def)
      with f(3) show "(domain (ps_new ?st') = None) = (\<not> tag_seen DKIM_PARAM_DOMAIN ?st')"
        unfolding seen by auto
      have "(selector (ps_new st) = None) = (\<not> tag_seen DKIM_PARAM_SELECTOR st)"
        using agree(1) by (simp add: fields_agree_def)
      with f(4) show "(selector (ps_new ?st') = None) = (\<not> tag_seen DKIM_PARAM_SELECTOR ?st')"
        unfolding seen by auto
      have "(ver (ps_new st) = 0) = (\<not> tag_seen DKIM_PARAM_VERSION st)"
        using agree(1) by (simp add: fields_agree_def)
      with f(5) show "(ver (ps_new ?st') = 0) = (\<not> tag_seen DKIM_PARAM_VERSION ?st')"
        unfolding seen by auto
      have "(hlist (ps_new st) = []) = (\<not> tag_seen DKIM_PARAM_HDRLIST st)"
        using agree(1) by (simp add: fields_agree_def)
      with f(6) show "(hlist (ps_new ?st') = []) = (\<not> tag_seen DKIM_PARAM_HDRLIST ?st')"
        unfolding seen by auto
      have "(sig_alg (ps_new st) = DKIM_SIGN_UNKNOWN) = (\<not> tag_seen DKIM_PARAM_SIGNALG st)"
        using agree(1) by (simp add: fields_agree_def)
      with f(7) show "(sig_alg (ps_new ?st') = DKIM_SIGN_UNKNOWN) = (\<not> tag_seen DKIM_PARAM_SIGNALG ?st')"
        unfolding seen by auto
    qed
    have sa: "signature_agrees E ?st'"
      using agree(2) parser_funcs_signature [OF Inr]
      unfolding signature_agrees_def sig_calls_def
      by (auto simp: rspamd_strlcpy_0 split: if_splits)
    from fa sa agree_cong [of "ok ?st'" ?st' E] ok [of ?st'] show ?thesis
      unfolding res loop_inv_def by blast
  qed
qed

lemma dkim_step_inv:
  assumes agree: "fields_agree st" "signature_agrees E st"
    and p: "ps_p st \<le> e"
    and step: "dkim_step E sig e st = Inr st'"
  shows "loop_inv E e st'"
proof (cases "ps_state st")
  case DKIM_STATE_TAG
  with step have "st' = step_tag sig st" by (simp add: dkim_step_def)
  then have "ps_new st' = ps_new st \<and> ps_calls st' = ps_calls st"
    by (simp add: step_tag_def Let_def)
  with agree agree_cong [of st' st E] show ?thesis by (simp add: loop_inv_def)
next
  case DKIM_STATE_AFTER_TAG
  with step have "st' = step_after_tag sig st" by (simp add: dkim_step_def)
  then have "ps_new st' = ps_new st \<and> ps_calls st' = ps_calls st"
    by (simp add: step_after_tag_def Let_def split: option.splits)
  with agree agree_cong [of st' st E] show ?thesis by (simp add: loop_inv_def)
next
  case DKIM_STATE_VALUE
  with step have s: "st' = step_value E sig e st" by (simp add: dkim_step_def)
  have "loop_inv E e (st\<lparr>ps_p := ps_p st + 1\<rparr>)"
    using agree agree_cong [of "st\<lparr>ps_p := ps_p st + 1\<rparr>" st E] by (simp add: loop_inv_def)
  then show ?thesis
    unfolding s step_value_def
    using call_parser_inv [OF agree p, of _ sig]
    by simp
next
  case DKIM_STATE_SKIP_SPACES
  with step have "st' = step_skip_spaces sig st" by (simp add: dkim_step_def)
  then have "ps_new st' = ps_new st \<and> ps_calls st' = ps_calls st"
    by (simp add: step_skip_spaces_def)
  with agree agree_cong [of st' st E] show ?thesis by (simp add: loop_inv_def)
next
  case DKIM_STATE_ERROR
  with step show ?thesis by (simp add: dkim_step_def split: option.splits)
qed

lemma dkim_parse_loop_inv:
  "loop_inv E e st \<Longrightarrow> dkim_parse_loop E sig e st = Inr st' \<Longrightarrow>
   fields_agree st' \<and> signature_agrees E st'"
proof (induction E sig e st rule: dkim_parse_loop.induct)
  case (1 E sig e st)
  show ?case
  proof (cases "ps_p st \<le> e")
    case False
    from "1.prems"(2) False have "st' = st"
      by (subst (asm) dkim_parse_loop.simps) simp
    with "1.prems"(1) False show ?thesis
      by (auto simp: loop_inv_def)
  next
    case True
    show ?thesis
    proof (cases "dkim_step E sig e st")
      case (Inl err)
      with True "1.prems"(2) show ?thesis
        by (subst (asm) dkim_parse_loop.simps) simp
    next
      case (Inr st1)
      then have "ps_state st \<noteq> DKIM_STATE_ERROR"
        by (auto simp: dkim_step_def split: option.splits)
      with "1.prems"(1) have agree: "fields_agree st" "signature_agrees E st"
        by (auto simp: loop_inv_def)
      have "loop_inv E e st1" by (rule dkim_step_inv [OF agree True Inr])
      moreover from True Inr "1.prems"(2) have "dkim_parse_loop E sig e st1 = Inr st'"
        by (subst (asm) dkim_parse_loop.simps) simp
      ultimately show ?thesis by (rule "1.IH" [OF True Inr])
    qed
  qed
qed

lemma initial_inv: "loop_inv E e initial_parse_st"
  by (simp add: loop_inv_def fields_agree_def signature_agrees_def tag_seen_def sig_calls_def
                initial_parse_st_def new_context_def)


lemma create_context_run:
  assumes "dkim_parse_loop E sig (strlen sig) initial_parse_st = Inr st"
  shows "rspamd_create_dkim_context E sig = check_validity E (ps_new st)"
    and "fields_agree st" and "signature_agrees E st"
  using assms dkim_parse_loop_inv [OF initial_inv assms]
  by (simp_all add: rspamd_create_dkim_context_def)

text \<open>
  C8. The claim: a signature that parses tag by tag but lacks a required tag makes context
  creation fail with the error kind of the missing tag. On the code the error is that of
  the first missing tag in the order \<open>b\<close>, \<open>bh\<close>, \<open>d\<close>, \<open>s\<close>, \<open>v\<close>, \<open>h\<close>, \<open>a\<close>, and it
  is the kind of the tag for all of them but \<open>a\<close>: a signature that lacks only \<open>a\<close> fails
  with \<^verbatim>\<open>DKIM_SIGERROR_EMPTY_S\<close>, the kind of a missing \<open>s\<close>.
\<close>

theorem C8_missing_tag_gives_its_error:
  assumes run: "dkim_parse_loop E sig (strlen sig) initial_parse_st = Inr st"
    and miss: "missing_params st \<noteq> []"
  shows "rspamd_create_dkim_context E sig = Inl (snd (hd (missing_params st)))"
proof -
  note r = create_context_run [OF run]
  let ?s = "\<lambda>prm. tag_seen prm st"
  have f: "(b (ps_new st) = None) = (\<not> ?s DKIM_PARAM_SIGNATURE)"
    "(bh (ps_new st) = None) = (\<not> ?s DKIM_PARAM_BODYHASH)"
    "(domain (ps_new st) = None) = (\<not> ?s DKIM_PARAM_DOMAIN)"
    "(selector (ps_new st) = None) = (\<not> ?s DKIM_PARAM_SELECTOR)"
    "(ver (ps_new st) = 0) = (\<not> ?s DKIM_PARAM_VERSION)"
    "(hlist (ps_new st) = []) = (\<not> ?s DKIM_PARAM_HDRLIST)"
    "(sig_alg (ps_new st) = DKIM_SIGN_UNKNOWN) = (\<not> ?s DKIM_PARAM_SIGNALG)"
    using r(2) by (simp_all add: fields_agree_def)
  consider (1) "\<not> ?s DKIM_PARAM_SIGNATURE"
    | (2) "?s DKIM_PARAM_SIGNATURE" "\<not> ?s DKIM_PARAM_BODYHASH"
    | (3) "?s DKIM_PARAM_SIGNATURE" "?s DKIM_PARAM_BODYHASH" "\<not> ?s DKIM_PARAM_DOMAIN"
    | (4) "?s DKIM_PARAM_SIGNATURE" "?s DKIM_PARAM_BODYHASH" "?s DKIM_PARAM_DOMAIN"
          "\<not> ?s DKIM_PARAM_SELECTOR"
    | (5) "?s DKIM_PARAM_SIGNATURE" "?s DKIM_PARAM_BODYHASH" "?s DKIM_PARAM_DOMAIN"
          "?s DKIM_PARAM_SELECTOR" "\<not> ?s DKIM_PARAM_VERSION"
    | (6) "?s DKIM_PARAM_SIGNATURE" "?s DKIM_PARAM_BODYHASH" "?s DKIM_PARAM_DOMAIN"
          "?s DKIM_PARAM_SELECTOR" "?s DKIM_PARAM_VERSION" "\<not> ?s DKIM_PARAM_HDRLIST"
    | (7) "?s DKIM_PARAM_SIGNATURE" "?s DKIM_PARAM_BODYHASH" "?s DKIM_PARAM_DOMAIN"
          "?s DKIM_PARAM_SELECTOR" "?s DKIM_PARAM_VERSION" "?s DKIM_PARAM_HDRLIST"
          "\<not> ?s DKIM_PARAM_SIGNALG"
    | (8) "?s DKIM_PARAM_SIGNATURE" "?s DKIM_PARAM_BODYHASH" "?s DKIM_PARAM_DOMAIN"
          "?s DKIM_PARAM_SELECTOR" "?s DKIM_PARAM_VERSION" "?s DKIM_PARAM_HDRLIST"
          "?s DKIM_PARAM_SIGNALG"
    by blast
  then show ?thesis
  proof cases
    case 1
    with f show ?thesis
      by (simp add: r(1) check_validity_def missing_params_def required_params_def)
  next
    case 2
    with f show ?thesis
      by (simp add: r(1) check_validity_def missing_params_def required_params_def)
  next
    case 3
    with f show ?thesis
      by (simp add: r(1) check_validity_def missing_params_def required_params_def)
  next
    case 4
    with f show ?thesis
      by (simp add: r(1) check_validity_def missing_params_def required_params_def)
  next
    case 5
    with f show ?thesis
      by (simp add: r(1) check_validity_def missing_params_def required_params_def)
  next
    case 6
    with f show ?thesis
      by (simp add: r(1) check_validity_def missing_params_def required_params_def)
  next
    case 7
    with f show ?thesis
      by (simp add: r(1) check_validity_def missing_params_def required_params_def)
  next
    case 8
    with miss show ?thesis
      by (simp add: missing_params_def required_params_def)
  qed
qed

theorem C8_missing_tag_gives_its_error_witness:
  "dkim_parse_loop example_env no_algorithm_sig (strlen no_algorithm_sig) initial_parse_st =
     Inr (projr (dkim_parse_loop example_env no_algorithm_sig (strlen no_algorithm_sig)
                   initial_parse_st)) \<and>
   missing_params (projr (dkim_parse_loop example_env no_algorithm_sig (strlen no_algorithm_sig)
                            initial_parse_st)) =
     [(DKIM_PARAM_SIGNALG, DKIM_SIGERROR_EMPTY_S)] \<and>
   rspamd_create_dkim_context example_env no_algorithm_sig = Inl DKIM_SIGERROR_EMPTY_S"
proof -
  let ?r = "dkim_parse_loop example_env no_algorithm_sig (strlen no_algorithm_sig) initial_parse_st"
  have "\<not> isl ?r" by code_simp
  then have run: "?r = Inr (projr ?r)" by simp
  have miss: "missing_params (projr ?r) = [(DKIM_PARAM_SIGNALG, DKIM_SIGERROR_EMPTY_S)]"
    by code_simp
  from C8_missing_tag_gives_its_error [OF run] miss run show ?thesis by simp
qed



section \<open>Elision of the signature value\<close>

















lemma upt_shift: "[a ..< a + n] = map (\<lambda>i. a + i) [0 ..< n]"
  by (induction n) simp_all

lemma at_append_right: "at (xs @ ys) (length xs + i) = at ys i"
  by (simp add: at_def nth_append)

lemma mem_slice_middle: "mem_slice (xs @ ys @ zs) (length xs) (length ys) = ys"
proof -
  have "map (at (xs @ ys @ zs)) [length xs ..< length xs + length ys] =
        map (\<lambda>i. at (xs @ ys @ zs) (length xs + i)) [0 ..< length ys]"
    by (simp only: upt_shift list.map_comp comp_def)
  also have "\<dots> = map (\<lambda>i. ys ! i) [0 ..< length ys]"
    by (rule map_cong) (simp_all add: at_def nth_append)
  also have "\<dots> = ys" by (rule map_nth)
  finally show ?thesis by (simp only: mem_slice_def)
qed




text \<open>
  What is fed on that header: the bytes through \<^verbatim>\<open>b=\<close>, then the bytes from the semicolon
  that ends the value on, without the CR and LF at the end.
\<close>

lemma signature_update_example:
  "rspamd_dkim_signature_update [] (''v=1; b=c2ln; d=example.com'' @ CRLF) 0 28 =
     ''v=1; b=; d=example.com''"
  by code_simp

section \<open>The loop over the signed-header list\<close>











section \<open>The simple scan on a block of unfolded headers\<close>

lemma at_append_0: "at (A @ y # B) (length A) = y"
  by (simp add: at_def nth_append)

lemma simple_header_loop_skip:
  "list_all (\<lambda>ch. ch \<noteq> NUL \<and> (if st = 0 then ch \<noteq> CHR '':'' else ch \<noteq> LF)) ys \<Longrightarrow>
   simple_header_loop (A @ ys @ B) h is_sign st (length A) c found ck =
   simple_header_loop (A @ ys @ B) h is_sign st (length A + length ys) c found ck"
proof (induction ys arbitrary: A)
  case Nil
  show ?case by simp
next
  case (Cons y ys)
  from Cons.prems have y: "y \<noteq> NUL" "st = 0 \<Longrightarrow> y \<noteq> CHR '':''" "st \<noteq> 0 \<Longrightarrow> y \<noteq> LF"
    and ys: "list_all (\<lambda>ch. ch \<noteq> NUL \<and> (if st = 0 then ch \<noteq> CHR '':'' else ch \<noteq> LF)) ys"
    by (auto split: if_splits)
  have a: "at (A @ (y # ys) @ B) (length A) = y"
    using at_append_0 [of A y "ys @ B"] by simp
  have "simple_header_loop (A @ (y # ys) @ B) h is_sign st (length A) c found ck =
        simple_header_loop (A @ (y # ys) @ B) h is_sign st (length A + 1) c found ck"
    by (subst simple_header_loop.simps) (use a y in auto)
  also have "\<dots> = simple_header_loop ((A @ [y]) @ ys @ B) h is_sign st (length (A @ [y])) c found ck"
    by simp
  also have "\<dots> = simple_header_loop ((A @ [y]) @ ys @ B) h is_sign st
                     (length (A @ [y]) + length ys) c found ck"
    by (rule Cons.IH [OF ys])
  finally show ?case by simp
qed

lemma named_iff:
  "named h (n, v) \<longleftrightarrow>
     length n = strlen h \<and>
     map g_ascii_tolower (mem_slice (pre @ n @ B) (length pre) (strlen h)) =
     map g_ascii_tolower (take (strlen h) h)"
proof -
  have le: "strlen h \<le> length h"
    unfolding strlen_def by (rule length_takeWhile_le)
  show ?thesis
  proof (cases "length n = strlen h")
    case True
    then show ?thesis
      using mem_slice_middle [of pre n B] by (simp add: named_def)
  next
    case False
    have "map g_ascii_tolower n \<noteq> map g_ascii_tolower (take (strlen h) h)"
    proof
      assume "map g_ascii_tolower n = map g_ascii_tolower (take (strlen h) h)"
      then have "length (map g_ascii_tolower n) = length (map g_ascii_tolower (take (strlen h) h))"
        by simp
      with le False show False by simp
    qed
    with False show ?thesis by (simp add: named_def)
  qed
qed

lemma block_head_not_space:
  "list_all plain_header hs \<Longrightarrow>
   \<not> g_ascii_isspace (at (concat (map render_header hs)) 0)"
proof (cases hs)
  case Nil
  then show ?thesis by (simp add: at_def g_ascii_isspace_def NUL_def)
next
  case (Cons nv rest)
  assume "list_all plain_header hs"
  with Cons have p: "plain_header nv" by simp
  obtain n v where nv: "nv = (n, v)" by (cases nv)
  show ?thesis
  proof (cases n)
    case Nil
    with Cons nv show ?thesis
      by (simp add: render_header_def at_def g_ascii_isspace_def)
  next
    case (Cons x xs)
    with p nv have "\<not> g_ascii_isspace x" by (simp add: plain_header_def)
    with Cons \<open>hs = nv # rest\<close> nv show ?thesis
      by (simp add: render_header_def at_def)
  qed
qed

lemma simple_header_loop_block:
  "list_all plain_header hs \<Longrightarrow>
   simple_header_loop (pre @ concat (map render_header hs)) h False 0
       (length pre) (length pre) found ck =
     (ck @ concat (map render_header (filter (named h) hs)),
      found \<or> list_ex (named h) hs)"
proof (induction hs arbitrary: pre found ck)
  case Nil
  show ?case
    by (subst simple_header_loop.simps) (simp add: at_def)
next
  case (Cons nv rest)
  obtain n v where nv: "nv = (n, v)" by (cases nv)
  from Cons.prems have pnv: "plain_header nv" and prest: "list_all plain_header rest"
    by simp_all
  from pnv nv have pn: "list_all (\<lambda>ch. ch \<noteq> CHR '':'' \<and> ch \<noteq> NUL \<and> \<not> g_ascii_isspace ch) n"
    and pv: "list_all (\<lambda>ch. ch \<noteq> LF \<and> ch \<noteq> NUL) v"
    by (simp_all add: plain_header_def)
  define R where "R = concat (map render_header rest)"
  define m where "m = pre @ concat (map render_header (nv # rest))"
  define c where "c = length pre"
  define q where "q = c + length n"
  define e where "e = q + 1 + length v"
  have m1: "m = pre @ n @ (CHR '':'' # v @ [LF] @ R)"
    by (simp add: m_def R_def nv render_header_def)
  have m2: "m = (pre @ n) @ CHR '':'' # (v @ [LF] @ R)"
    by (simp add: m1)
  have m3: "m = (pre @ n @ [CHR '':'']) @ v @ ([LF] @ R)"
    by (simp add: m1)
  have m4: "m = (pre @ n @ [CHR '':''] @ v) @ LF # R"
    by (simp add: m1)
  have m5: "m = (pre @ render_header nv) @ R"
    by (simp add: m1 nv render_header_def)
  have m6: "m = pre @ render_header nv @ R"
    by (simp add: m5)
  have lens: "length (pre @ n) = q" "length (pre @ n @ [CHR '':'']) = q + 1"
    "length (pre @ n @ [CHR '':''] @ v) = e" "length (pre @ render_header nv) = e + 1"
    "length (render_header nv) = e + 1 - c"
    by (simp_all add: q_def c_def e_def nv render_header_def)
  have at_q: "at m q = CHR '':''"
    using at_append_0 [of "pre @ n" "CHR '':''" "v @ [LF] @ R"] by (simp only: m2 lens)
  have at_e: "at m e = LF"
    using at_append_0 [of "pre @ n @ [CHR '':''] @ v" LF R] by (simp only: m4 lens)
  have at_e1: "at m (e + 1) = at R 0"
    using at_append_right [of "pre @ render_header nv" R 0] by (simp only: m5 lens) simp
  have nsp: "\<not> g_ascii_isspace (at m (e + 1))"
    unfolding at_e1 R_def by (rule block_head_not_space [OF prest])
  have name: "simple_header_loop m h False 0 c c found ck =
              simple_header_loop m h False 0 q c found ck"
  proof -
    have "list_all (\<lambda>ch. ch \<noteq> NUL \<and> (if (0::nat) = 0 then ch \<noteq> CHR '':'' else ch \<noteq> LF)) n"
      using pn by (simp add: list_all_iff)
    from simple_header_loop_skip [OF this, of pre "CHR '':'' # v @ [LF] @ R" h False c found ck]
    show ?thesis by (simp only: m1 [symmetric] c_def [symmetric] q_def [symmetric])
  qed
  have val: "\<And>st k f. st \<noteq> 0 \<Longrightarrow>
              simple_header_loop m h False st (q + 1) c f k =
              simple_header_loop m h False st e c f k"
  proof -
    fix st :: nat and k f
    assume "st \<noteq> 0"
    with pv have "list_all (\<lambda>ch. ch \<noteq> NUL \<and> (if st = 0 then ch \<noteq> CHR '':'' else ch \<noteq> LF)) v"
      by (simp add: list_all_iff)
    from simple_header_loop_skip [OF this, of "pre @ n @ [CHR '':'']" "[LF] @ R" h False c f k]
    show "simple_header_loop m h False st (q + 1) c f k =
          simple_header_loop m h False st e c f k"
      by (simp only: m3 [symmetric] lens e_def [symmetric])
  qed
  have nm: "named h nv \<longleftrightarrow>
            q - c = strlen h \<and>
            map g_ascii_tolower (mem_slice m c (strlen h)) =
            map g_ascii_tolower (take (strlen h) h)"
    unfolding nv q_def c_def m1
    using named_iff [of h n v pre "CHR '':'' # v @ [LF] @ R"] by simp
  have colon: "simple_header_loop m h False 0 q c found ck =
               simple_header_loop m h False (if named h nv then 2 else 1) (q + 1) c found ck"
    by (subst simple_header_loop.simps) (use at_q nm in \<open>auto simp: NUL_def\<close>)
  have fed: "g_checksum_update ck m c (int e - int c + 1) = ck @ render_header nv"
  proof -
    have "c \<le> e" by (simp add: e_def q_def)
    then have "nat (int e - int c + 1) = e + 1 - c" by simp
    moreover have "0 \<le> int e - int c + 1" using \<open>c \<le> e\<close> by simp
    moreover have "mem_slice m c (e + 1 - c) = render_header nv"
      using mem_slice_middle [of pre "render_header nv" R]
      by (simp only: m6 [symmetric] c_def [symmetric] lens)
    ultimately show ?thesis by (simp add: g_checksum_update_def)
  qed
  have lf1: "simple_header_loop m h False 1 e c found ck =
             simple_header_loop m h False 0 (e + 1) (e + 1) found ck"
    by (subst simple_header_loop.simps) (use at_e nsp in \<open>auto simp: NUL_def LF_def\<close>)
  have lf2: "simple_header_loop m h False 2 e c found ck =
             simple_header_loop m h False 0 (e + 1) (e + 1) True (ck @ render_header nv)"
    by (subst simple_header_loop.simps) (use at_e nsp fed in \<open>auto simp: NUL_def LF_def\<close>)
  have ih: "\<And>f k. simple_header_loop m h False 0 (e + 1) (e + 1) f k =
              (k @ concat (map render_header (filter (named h) rest)),
               f \<or> list_ex (named h) rest)"
    using Cons.IH [OF prest, of "pre @ render_header nv"]
    by (simp only: m5 [symmetric] R_def [symmetric] lens)
  have "simple_header_loop m h False 0 c c found ck =
        (ck @ concat (map render_header (filter (named h) (nv # rest))),
         found \<or> list_ex (named h) (nv # rest))"
  proof (cases "named h nv")
    case True
    have "simple_header_loop m h False 0 c c found ck =
          simple_header_loop m h False 2 e c found ck"
      using name colon val [of 2 found ck] True by simp
    with lf2 ih [of True "ck @ render_header nv"] True show ?thesis by simp
  next
    case False
    have "simple_header_loop m h False 0 c c found ck =
          simple_header_loop m h False 1 e c found ck"
      using name colon val [of 1 found ck] False by simp
    with lf1 ih [of found ck] False show ?thesis by simp
  qed
  then show ?case by (simp only: m_def c_def)
qed


text \<open>
  What one entry feeds, spelled out. In simple mode, on a block of plain headers: every
  header of the block that carries the name, in the order of the block. In relaxed
  mode: the buffer of every value of the chain.
\<close>

lemma entry_feed_simple_block:
  assumes "header_canon_type ctx = DKIM_CANON_SIMPLE"
    and "list_all plain_header hs"
    and "raw_headers_str task = concat (map render_header hs)"
  shows "entry_feed ctx task h = concat (map render_header (filter (named h) hs))"
  using simple_header_loop_block [OF assms(2), of "[]" h False "[]"] assms(1,3)
  by (simp add: entry_feed_def)

lemma entry_feed_relaxed_chain:
  "header_canon_type ctx \<noteq> DKIM_CANON_SIMPLE \<Longrightarrow>
   entry_feed ctx task h = concat (map (\<lambda>v. relaxed_header_buf v h) (raw_headers task h))"
  by (simp add: entry_feed_def)

end
